theory Spec2Isabelle
  imports Complex_Main "HOL-Library.Word"
begin

unbundle bit_operations_syntax

chapter \<open>The embedding\<close>

text \<open>
  A shallow embedding of the ingestion core of the ERC-20 transfer indexer: the event
  stream (package \<open>stream\<close>), the circuit breaker and the provider pool (package
  \<open>ethereum\<close>), the adaptive scanner (package \<open>service\<close>), the log parser, and the
  repository with its look-aside cache (packages \<open>repository\<close> and \<open>cache\<close>).
  Go structs are records, Go's \<open>(value, error)\<close> results are sums with the error on
  the left, \<open>uint64\<close> is \<open>64 word\<close>, and everything a function reads from the outside
  world (an RPC answer, the clock, the answer of Redis or MongoDB) is an explicit argument.
  Logging and metrics are left out: no function reads them back.
\<close>

section \<open>Package stream: the event bus\<close>

type_synonym bytes = string

text \<open>
  A buffered Go channel \<open>chan []byte\<close>: its capacity and the messages waiting in it.
  A receiver takes messages from the front of \<open>queue\<close>.
\<close>

record chan =
  cap :: nat
  queue :: "bytes list"

text \<open>
  \<open>select { case clientChan <- data: default: }\<close>: the send happens when the channel
  has room and is dropped otherwise.
\<close>

definition try_send :: "bytes \<Rightarrow> chan \<Rightarrow> chan" where
  "try_send d c = (if length (queue c) < cap c then c\<lparr>queue := queue c @ [d]\<rparr> else c)"

text \<open>
  \<open>type Stream struct\<close>. The field \<open>clients\<close> is Go's \<open>map[chan []byte]bool\<close>: an
  association list from the identity of a channel to the channel; \<open>Publish\<close> sends to
  each channel on its own, so the order of the entries has no effect. The records of
  type \<open>*models.Transfer\<close> are values of \<open>'t\<close>. The mutex is left out: no method
  of \<open>Stream\<close> calls another one while it holds it. A \<open>nil\<close> receiver, on which
  \<open>Publish\<close> returns at once, is not a value of the record.
\<close>

record 't Stream =
  clients :: "(nat \<times> chan) list"
  buffer :: "'t list"
  bufferSize :: int

text \<open>
  \<open>NewStream\<close>. \<open>make([]*models.Transfer, 0, bufferSize)\<close> panics on a negative
  capacity: \<open>None\<close>.
\<close>

definition NewStream :: "int \<Rightarrow> 't Stream option" where
  "NewStream n =
     (if n < 0 then None else Some \<lparr>clients = [], buffer = [], bufferSize = n\<rparr>)"

text \<open>The argument of \<open>Publish\<close> is an \<open>interface{}\<close>: a \<open>*models.Transfer\<close> or not.\<close>

datatype 't iface = Transfer_ptr 't | Other_value

text \<open>
  \<open>Stream.Publish\<close>. \<open>marshal\<close> is \<open>json.Marshal\<close> on a transfer (\<open>None\<close>: it
  returned an error).
\<close>

definition Publish :: "('t \<Rightarrow> bytes option) \<Rightarrow> 't Stream \<Rightarrow> 't iface \<Rightarrow> 't Stream" where
  "Publish marshal s v =
     (case v of
        Other_value \<Rightarrow> s
      | Transfer_ptr t \<Rightarrow>
          if length (clients s) = 0 then
            (if int (length (buffer s)) < bufferSize s
             then s\<lparr>buffer := buffer s @ [t]\<rparr> else s)
          else
            (case marshal t of
               None \<Rightarrow> s
             | Some data \<Rightarrow>
                 s\<lparr>clients := map (\<lambda>(k, c). (k, try_send data c)) (clients s)\<rparr>))"

text \<open>Publishing a sequence of values, one call of \<open>Publish\<close> each, in order.\<close>

definition publish_all :: "('t \<Rightarrow> bytes option) \<Rightarrow> 't Stream \<Rightarrow> 't iface list \<Rightarrow> 't Stream" where
  "publish_all marshal s vs = foldl (Publish marshal) s vs"

text \<open>
  The goroutine of \<open>Subscribe\<close> that replays the buffer into the new channel. A record
  that does not marshal is skipped; a send into a full channel waits one second and then
  gives up on the rest: the model is a subscriber that does not read during the replay.
\<close>

fun replay :: "('t \<Rightarrow> bytes option) \<Rightarrow> 't list \<Rightarrow> chan \<Rightarrow> chan" where
  "replay marshal [] c = c"
| "replay marshal (t # ts) c =
     (case marshal t of
        None \<Rightarrow> replay marshal ts c
      | Some data \<Rightarrow>
          if length (queue c) < cap c
          then replay marshal ts (c\<lparr>queue := queue c @ [data]\<rparr>)
          else c)"

text \<open>The identity of the channel \<open>make\<close> returns: one that no client has.\<close>

definition fresh_chan :: "(nat \<times> chan) list \<Rightarrow> nat" where
  "fresh_chan cs = Suc (foldr max (map fst cs) 0)"

text \<open>
  \<open>Stream.Subscribe\<close>: a new channel of capacity \<open>bufferSize\<close>, registered as a client;
  the replay goroutine is run to its end before the call returns (it copies the buffer as
  soon as \<open>Subscribe\<close> releases the lock). The result is the channel's identity and the
  new stream; the cleanup function is \<open>unsubscribe\<close>.
\<close>

definition Subscribe :: "('t \<Rightarrow> bytes option) \<Rightarrow> 't Stream \<Rightarrow> nat \<times> 't Stream" where
  "Subscribe marshal s =
     (let k = fresh_chan (clients s);
          c = replay marshal (buffer s) \<lparr>cap = nat (bufferSize s), queue = []\<rparr>
      in (k, s\<lparr>clients := clients s @ [(k, c)]\<rparr>))"

definition unsubscribe :: "nat \<Rightarrow> 't Stream \<Rightarrow> 't Stream" where
  "unsubscribe k s = s\<lparr>clients := filter (\<lambda>(k', c). k' \<noteq> k) (clients s)\<rparr>"

text \<open>What a subscriber finds in its channel.\<close>

definition received :: "nat \<Rightarrow> 't Stream \<Rightarrow> bytes list" where
  "received k s = (case map_of (clients s) k of None \<Rightarrow> [] | Some c \<Rightarrow> queue c)"

text \<open>Every subscribed channel is full.\<close>

definition all_full :: "'t Stream \<Rightarrow> bool" where
  "all_full s = list_all (\<lambda>(k, c). cap c \<le> length (queue c)) (clients s)"

section \<open>Package ethereum: the circuit breaker of one provider\<close>

datatype ProviderState = StateHealthy | StateUnhealthy | StateHalfOpen

text \<open>
  \<open>type Provider struct\<close>, without the RPC client (its answers are arguments of the
  pool's operations) and without the mutex: each method of \<open>Provider\<close> takes the
  provider's own lock on entry, calls no other method of the provider, and releases it
  on exit. The counters are Go's \<open>int\<close>; they count calls and stay far from
  \<open>2^63\<close>, so they are \<open>int\<close>. A \<open>time.Time\<close> is a number of nanoseconds, a
  \<open>time.Duration\<close> too.
\<close>

record Provider =
  Name :: string
  URL :: string
  Weight :: int
  MaxRange :: "64 word"
  Timeout :: int
  state :: ProviderState
  failureCount :: int
  successCount :: int
  lastFailureTime :: int
  lastSuccessTime :: int
  failureThreshold :: int
  successThreshold :: int
  timeout :: int
  halfOpenMaxCalls :: int
  halfOpenCalls :: int

record CircuitBreakerConfig =
  FailureThreshold :: int
  SuccessThreshold :: int
  CBTimeout :: int
  HalfOpenMaxCalls :: int

definition DefaultCircuitBreakerConfig :: CircuitBreakerConfig where
  "DefaultCircuitBreakerConfig =
     \<lparr>FailureThreshold = 5, SuccessThreshold = 2, CBTimeout = 60 * 1000000000,
      HalfOpenMaxCalls = 3\<rparr>"

text \<open>\<open>NewProvider\<close>, once the dial succeeded. The times start at Go's zero time.\<close>

definition NewProvider ::
  "string \<Rightarrow> string \<Rightarrow> int \<Rightarrow> 64 word \<Rightarrow> int \<Rightarrow> CircuitBreakerConfig \<Rightarrow> Provider" where
  "NewProvider name url weight maxRange tmo cbConfig =
     \<lparr>Name = name, URL = url, Weight = weight, MaxRange = maxRange, Timeout = tmo,
      state = StateHealthy, failureCount = 0, successCount = 0,
      lastFailureTime = 0, lastSuccessTime = 0,
      failureThreshold = FailureThreshold cbConfig,
      successThreshold = SuccessThreshold cbConfig,
      timeout = CBTimeout cbConfig,
      halfOpenMaxCalls = HalfOpenMaxCalls cbConfig,
      halfOpenCalls = 0\<rparr>"

text \<open>
  \<open>Provider.IsHealthy\<close> at the time \<open>now\<close>: the answer and the provider, which the
  call moves from unhealthy to half-open once the breaker's timeout has passed since the
  last failure.
\<close>

definition IsHealthy :: "int \<Rightarrow> Provider \<Rightarrow> bool \<times> Provider" where
  "IsHealthy now p =
     (if state p = StateHealthy then (True, p)
      else if state p = StateUnhealthy then
        (if now - lastFailureTime p > timeout p
         then (True, p\<lparr>state := StateHalfOpen, halfOpenCalls := 0\<rparr>)
         else (False, p))
      else (state p = StateHalfOpen, p))"

text \<open>\<open>Provider.RecordSuccess\<close> at the time \<open>now\<close>.\<close>

definition RecordSuccess :: "int \<Rightarrow> Provider \<Rightarrow> Provider" where
  "RecordSuccess now p =
     (let p1 = p\<lparr>lastSuccessTime := now, successCount := successCount p + 1,
                 failureCount := 0\<rparr>
      in if state p1 = StateHalfOpen then
           (let p2 = p1\<lparr>halfOpenCalls := halfOpenCalls p1 + 1\<rparr>
            in if successCount p2 \<ge> successThreshold p2
               then p2\<lparr>state := StateHealthy, halfOpenCalls := 0, successCount := 0\<rparr>
               else p2)
         else if state p1 = StateUnhealthy then p1\<lparr>state := StateHalfOpen\<rparr>
         else p1)"

text \<open>\<open>Provider.RecordFailure\<close> at the time \<open>now\<close>; the error only labels a metric.\<close>

definition RecordFailure :: "int \<Rightarrow> Provider \<Rightarrow> Provider" where
  "RecordFailure now p =
     (let p1 = p\<lparr>lastFailureTime := now, failureCount := failureCount p + 1,
                 successCount := 0\<rparr>
      in if state p1 = StateHalfOpen then p1\<lparr>state := StateUnhealthy, halfOpenCalls := 0\<rparr>
         else if failureCount p1 \<ge> failureThreshold p1 then p1\<lparr>state := StateUnhealthy\<rparr>
         else p1)"

text \<open>Consecutive calls, one at each of the given times.\<close>

definition failures :: "int list \<Rightarrow> Provider \<Rightarrow> Provider" where
  "failures ts p = foldl (\<lambda>q t. RecordFailure t q) p ts"

definition successes :: "int list \<Rightarrow> Provider \<Rightarrow> Provider" where
  "successes ts p = foldl (\<lambda>q t. RecordSuccess t q) p ts"

section \<open>Package ethereum: the provider pool\<close>

text \<open>
  The pool's mutex is a \<open>sync.RWMutex\<close> of Go's library. Its four operations are taken
  as a parameter of the pool's methods: each maps the state of the mutex to the new
  state, or to \<open>None\<close> when the call does not return. Unlike the provider's methods,
  the pool's methods nest: \<open>SelectProvider\<close> calls \<open>GetHealthyProviders\<close> while it
  holds the write lock.
\<close>

record 'm RWMutex =
  Lock :: "'m \<Rightarrow> 'm option"
  Unlock :: "'m \<Rightarrow> 'm option"
  RLock :: "'m \<Rightarrow> 'm option"
  RUnlock :: "'m \<Rightarrow> 'm option"

text \<open>
  Go's \<open>sync.RWMutex\<close> as one goroutine sees it when no other goroutine holds the
  mutex: free, held by a writer, or held by a number of readers. A \<open>Lock\<close> or
  \<open>RLock\<close> that has to wait for the calling goroutine itself never returns, and neither
  does an unlock of a mutex that is not locked (a fatal error).
\<close>

datatype mutex_state = Free | Writer | Readers nat

definition go_RWMutex :: "mutex_state RWMutex" where
  "go_RWMutex =
     \<lparr>Lock = (\<lambda>m. case m of Free \<Rightarrow> Some Writer | _ \<Rightarrow> None),
      Unlock = (\<lambda>m. case m of Writer \<Rightarrow> Some Free | _ \<Rightarrow> None),
      RLock = (\<lambda>m. case m of Free \<Rightarrow> Some (Readers 1) | Readers n \<Rightarrow> Some (Readers (Suc n))
                 | Writer \<Rightarrow> None),
      RUnlock = (\<lambda>m. case m of Readers (Suc 0) \<Rightarrow> Some Free
                   | Readers (Suc (Suc n)) \<Rightarrow> Some (Readers (Suc n)) | _ \<Rightarrow> None)\<rparr>"

text \<open>
  A lock on which no operation waits. It is not Go's mutex, which has no such mode: it
  stands for the pool's methods with the nested locking taken out of the way, and shows
  what the code behind the lock does once it is reached.
\<close>

definition no_wait :: "unit RWMutex" where
  "no_wait = \<lparr>Lock = Some, Unlock = Some, RLock = Some, RUnlock = Some\<rparr>"

text \<open>
  \<open>type ProviderPool struct\<close>. The pool holds pointers to its providers and updates
  them in place: a provider is named by its index in \<open>providers\<close>. \<open>NewProviderPool\<close>
  puts the providers in the order of descending weight, with an unlocked mutex and
  \<open>current\<close> 0; \<open>current\<close> is only incremented.
\<close>

record 'm ProviderPool =
  providers :: "Provider list"
  mu :: 'm
  current :: nat

text \<open>
  \<open>ProviderPool.GetHealthyProviders\<close> at the time \<open>now\<close>: the indices of the
  providers that answer \<open>IsHealthy\<close>, in the pool's order, and the pool (\<open>IsHealthy\<close>
  may move a provider to half-open).
\<close>

definition GetHealthyProviders ::
  "'m RWMutex \<Rightarrow> int \<Rightarrow> 'm ProviderPool \<Rightarrow> (nat list \<times> 'm ProviderPool) option" where
  "GetHealthyProviders L now pool =
     (case RLock L (mu pool) of
        None \<Rightarrow> None
      | Some m1 \<Rightarrow>
          (let rs = map (IsHealthy now) (providers pool);
               healthy = filter (\<lambda>i. fst (rs ! i)) [0..<length rs]
           in case RUnlock L m1 of
                None \<Rightarrow> None
              | Some m2 \<Rightarrow> Some (healthy, pool\<lparr>providers := map snd rs, mu := m2\<rparr>)))"

datatype select_error = AllUnhealthyFallback string | NoProvidersAvailable

text \<open>
  \<open>ProviderPool.SelectProvider\<close>: Go's \<open>(*Provider, error)\<close> as the index of the
  provider (\<open>None\<close> for \<open>nil\<close>) and the error (\<open>None\<close> for \<open>nil\<close>). The deferred
  \<open>Unlock\<close> runs on each return.
\<close>

definition SelectProvider ::
  "'m RWMutex \<Rightarrow> int \<Rightarrow> 'm ProviderPool \<Rightarrow>
   ((nat option \<times> select_error option) \<times> 'm ProviderPool) option" where
  "SelectProvider L now pool =
     (case Lock L (mu pool) of
        None \<Rightarrow> None
      | Some m1 \<Rightarrow>
          (case GetHealthyProviders L now (pool\<lparr>mu := m1\<rparr>) of
             None \<Rightarrow> None
           | Some (healthy, pool1) \<Rightarrow>
               (case Unlock L (mu pool1) of
                  None \<Rightarrow> None
                | Some m2 \<Rightarrow>
                    if length healthy > 0 then
                      Some ((Some (healthy ! (current pool1 mod length healthy)), None),
                            pool1\<lparr>current := current pool1 + 1, mu := m2\<rparr>)
                    else if length (providers pool1) > 0 then
                      Some ((Some 0,
                             Some (AllUnhealthyFallback (Name (providers pool1 ! 0)))),
                            pool1\<lparr>mu := m2\<rparr>)
                    else
                      Some ((None, Some NoProvidersAvailable), pool1\<lparr>mu := m2\<rparr>))))"

text \<open>
  What one turn of a pool operation's loop reads from outside: the clock when the
  provider is selected, the answer of each provider's RPC should it be called in this
  turn (the error's text, or the result), the clock when the outcome is recorded, and
  whether the caller's context is done after a failed call.
\<close>

record 'a attempt_env =
  clock :: int
  answer :: "nat \<Rightarrow> string + 'a"
  clock_after :: int
  ctx_done :: bool

datatype attempt_error = RangeExceeded string "64 word" "64 word" | ProviderFailed string string

datatype pool_error =
    NoHealthyProviders select_error
  | ContextCancelled
  | AllProvidersFailed "attempt_error option"

text \<open>
  \<open>ethereum.FilterQuery\<close>: the two bounds. Every caller in the repository builds them
  with \<open>SetUint64\<close>, so \<open>Uint64()\<close> gives them back.
\<close>

record FilterQuery =
  FromBlock :: "64 word"
  ToBlock :: "64 word"

definition blockRange :: "FilterQuery \<Rightarrow> 64 word" where
  "blockRange query = ToBlock query - FromBlock query + 1"

text \<open>
  The loop of \<open>ProviderPool.FilterLogs\<close> with \<open>n\<close> turns left of \<open>maxAttempts\<close>;
  \<open>attempted\<close> is the map \<open>attemptedProviders\<close>, and \<open>called\<close> lists the providers
  whose RPC was called so far, in order. The result is Go's \<open>(logs, error)\<close>, the
  providers called, and the pool; \<open>None\<close> when the call does not return.
\<close>

fun FilterLogs_loop ::
  "'m RWMutex \<Rightarrow> (nat \<Rightarrow> 'a attempt_env) \<Rightarrow> 64 word \<Rightarrow> nat \<Rightarrow> nat \<Rightarrow> string list \<Rightarrow>
   attempt_error option \<Rightarrow> nat list \<Rightarrow> 'm ProviderPool \<Rightarrow>
   ((pool_error + 'a) \<times> nat list \<times> 'm ProviderPool) option" where
  "FilterLogs_loop L env br maxAttempts 0 attempted lastErr called pool =
     Some (Inl (AllProvidersFailed lastErr), called, pool)"
| "FilterLogs_loop L env br maxAttempts (Suc n) attempted lastErr called pool =
     (let attempt = maxAttempts - Suc n in
      case SelectProvider L (clock (env attempt)) pool of
        None \<Rightarrow> None
      | Some ((sel, err), pool1) \<Rightarrow>
          (case err of
             Some e \<Rightarrow> Some (Inl (NoHealthyProviders e), called, pool1)
           | None \<Rightarrow>
               (case sel of
                  None \<Rightarrow> None
                | Some i \<Rightarrow>
                    (let provider = providers pool1 ! i in
                     if br > MaxRange provider then
                       FilterLogs_loop L env br maxAttempts n (Name provider # attempted)
                         (Some (RangeExceeded (Name provider) (MaxRange provider) br))
                         called pool1
                     else if Name provider \<in> set attempted \<and> attempt < length (providers pool1)
                     then FilterLogs_loop L env br maxAttempts n attempted lastErr called pool1
                     else
                       (case answer (env attempt) i of
                          Inr logs \<Rightarrow>
                            Some (Inr logs, called @ [i],
                                  pool1\<lparr>providers := (providers pool1)
                                     [i := RecordSuccess (clock_after (env attempt)) provider]\<rparr>)
                        | Inl e \<Rightarrow>
                            (let pool2 = pool1\<lparr>providers := (providers pool1)
                                     [i := RecordFailure (clock_after (env attempt)) provider]\<rparr>
                             in if ctx_done (env attempt)
                                then Some (Inl ContextCancelled, called @ [i], pool2)
                                else FilterLogs_loop L env br maxAttempts n (Name provider # attempted)
                                       (Some (ProviderFailed (Name provider) e))
                                       (called @ [i]) pool2))))))"

definition FilterLogs ::
  "'m RWMutex \<Rightarrow> (nat \<Rightarrow> 'a attempt_env) \<Rightarrow> FilterQuery \<Rightarrow> 'm ProviderPool \<Rightarrow>
   ((pool_error + 'a) \<times> nat list \<times> 'm ProviderPool) option" where
  "FilterLogs L env query pool =
     FilterLogs_loop L env (blockRange query) (length (providers pool) * 2)
       (length (providers pool) * 2) [] None [] pool"

text \<open>
  The loop of \<open>ProviderPool.BlockByNumber\<close> and of \<open>ProviderPool.HeaderByNumber\<close>:
  the two methods have the same body but for the RPC they call, and differ from
  \<open>FilterLogs\<close> in having no range check.
\<close>

fun ByNumber_loop ::
  "'m RWMutex \<Rightarrow> (nat \<Rightarrow> 'a attempt_env) \<Rightarrow> nat \<Rightarrow> nat \<Rightarrow> string list \<Rightarrow>
   attempt_error option \<Rightarrow> nat list \<Rightarrow> 'm ProviderPool \<Rightarrow>
   ((pool_error + 'a) \<times> nat list \<times> 'm ProviderPool) option" where
  "ByNumber_loop L env maxAttempts 0 attempted lastErr called pool =
     Some (Inl (AllProvidersFailed lastErr), called, pool)"
| "ByNumber_loop L env maxAttempts (Suc n) attempted lastErr called pool =
     (let attempt = maxAttempts - Suc n in
      case SelectProvider L (clock (env attempt)) pool of
        None \<Rightarrow> None
      | Some ((sel, err), pool1) \<Rightarrow>
          (case err of
             Some e \<Rightarrow> Some (Inl (NoHealthyProviders e), called, pool1)
           | None \<Rightarrow>
               (case sel of
                  None \<Rightarrow> None
                | Some i \<Rightarrow>
                    (let provider = providers pool1 ! i in
                     if Name provider \<in> set attempted \<and> attempt < length (providers pool1)
                     then ByNumber_loop L env maxAttempts n attempted lastErr called pool1
                     else
                       (case answer (env attempt) i of
                          Inr res \<Rightarrow>
                            Some (Inr res, called @ [i],
                                  pool1\<lparr>providers := (providers pool1)
                                     [i := RecordSuccess (clock_after (env attempt)) provider]\<rparr>)
                        | Inl e \<Rightarrow>
                            (let pool2 = pool1\<lparr>providers := (providers pool1)
                                     [i := RecordFailure (clock_after (env attempt)) provider]\<rparr>
                             in if ctx_done (env attempt)
                                then Some (Inl ContextCancelled, called @ [i], pool2)
                                else ByNumber_loop L env maxAttempts n (Name provider # attempted)
                                       (Some (ProviderFailed (Name provider) e))
                                       (called @ [i]) pool2))))))"

definition BlockByNumber ::
  "'m RWMutex \<Rightarrow> (nat \<Rightarrow> 'a attempt_env) \<Rightarrow> 'm ProviderPool \<Rightarrow>
   ((pool_error + 'a) \<times> nat list \<times> 'm ProviderPool) option" where
  "BlockByNumber L env pool =
     ByNumber_loop L env (length (providers pool) * 2) (length (providers pool) * 2)
       [] None [] pool"

definition HeaderByNumber ::
  "'m RWMutex \<Rightarrow> (nat \<Rightarrow> 'a attempt_env) \<Rightarrow> 'm ProviderPool \<Rightarrow>
   ((pool_error + 'a) \<times> nat list \<times> 'm ProviderPool) option" where
  "HeaderByNumber L env pool =
     ByNumber_loop L env (length (providers pool) * 2) (length (providers pool) * 2)
       [] None [] pool"

section \<open>Package service: the adaptive scanner\<close>

text \<open>
  \<open>type IngestionService struct\<close>: the configuration and the adaptive state. The
  collaborators (client, fetcher, repository, stream, logger) are not fields of the
  model: what a tick reads from them is an argument of \<open>processBlocks\<close>. The two
  streak counters are called \<open>successCount\<close> and \<open>failureCount\<close> in the source, as
  the provider's are.
\<close>

record IngestionService =
  startBlock :: "64 word"
  blockBatchSize :: "64 word"
  resetStartBlock :: bool
  adaptiveBatch :: bool
  batchMinSize :: "64 word"
  batchMaxSize :: "64 word"
  batchSuccessStreak :: int
  batchFailureBackoff :: int
  currentBatchSize :: "64 word"
  successCount_svc :: int
  failureCount_svc :: int

text \<open>\<open>NewIngestionService\<close>.\<close>

definition NewIngestionService ::
  "64 word \<Rightarrow> 64 word \<Rightarrow> bool \<Rightarrow> bool \<Rightarrow> 64 word \<Rightarrow> 64 word \<Rightarrow> int \<Rightarrow> int \<Rightarrow> IngestionService" where
  "NewIngestionService startBlock' blockBatchSize' resetStartBlock' adaptiveBatch'
       batchMinSize' batchMaxSize' batchSuccessStreak' batchFailureBackoff' =
     (let currentSize = (if blockBatchSize' = 0 then 10 else blockBatchSize')
      in \<lparr>startBlock = startBlock', blockBatchSize = blockBatchSize',
          resetStartBlock = resetStartBlock', adaptiveBatch = adaptiveBatch',
          batchMinSize = batchMinSize', batchMaxSize = batchMaxSize',
          batchSuccessStreak = batchSuccessStreak',
          batchFailureBackoff = batchFailureBackoff',
          currentBatchSize = currentSize, successCount_svc = 0, failureCount_svc = 0\<rparr>)"

text \<open>\<open>IngestionService.adjustBatchSizeOnSuccess\<close>; the product is a \<open>uint64\<close>.\<close>

definition adjustBatchSizeOnSuccess :: "IngestionService \<Rightarrow> IngestionService" where
  "adjustBatchSizeOnSuccess s =
     (let s1 = s\<lparr>successCount_svc := successCount_svc s + 1, failureCount_svc := 0\<rparr>
      in if successCount_svc s1 \<ge> batchSuccessStreak s1 then
           (let newSize = currentBatchSize s1 * 2;
                newSize = (if newSize > batchMaxSize s1 then batchMaxSize s1 else newSize)
            in if newSize \<noteq> currentBatchSize s1
               then s1\<lparr>currentBatchSize := newSize, successCount_svc := 0\<rparr>
               else s1)
         else s1)"

text \<open>
  \<open>IngestionService.adjustBatchSizeOnFailure\<close>. \<open>uint64(s.batchFailureBackoff)\<close>
  converts Go's \<open>int\<close>; a division by zero panics: \<open>None\<close>.
\<close>

definition adjustBatchSizeOnFailure :: "IngestionService \<Rightarrow> IngestionService option" where
  "adjustBatchSizeOnFailure s =
     (let s1 = s\<lparr>failureCount_svc := failureCount_svc s + 1, successCount_svc := 0\<rparr>;
          divisor = (word_of_int (batchFailureBackoff s1) :: 64 word)
      in if divisor = 0 then None
         else
           (let newSize = currentBatchSize s1 div divisor;
                newSize = (if newSize < batchMinSize s1 then batchMinSize s1 else newSize)
            in if newSize \<noteq> currentBatchSize s1
               then Some (s1\<lparr>currentBatchSize := newSize, failureCount_svc := 0\<rparr>)
               else Some s1))"

text \<open>The local \<open>batchSize\<close> of \<open>processBlocks\<close>: the size of the batch a tick asks for.\<close>

definition batchSize :: "IngestionService \<Rightarrow> 64 word" where
  "batchSize s =
     (if currentBatchSize s = 0
      then (if blockBatchSize s = 0 then 10 else blockBatchSize s)
      else currentBatchSize s)"

text \<open>
  What one tick reads from its collaborators: the result of \<open>GetLatestBlockNumber\<close>,
  of \<open>FetchTransferLogs\<close> for a range, of \<open>InsertTransfers\<close> for a batch and of
  \<open>SetLastProcessedBlock\<close> for a block (an error's text, or the value).
\<close>

record 't tick_env =
  latest :: "string + 64 word"
  fetched :: "64 word \<Rightarrow> 64 word \<Rightarrow> string + 't list"
  inserted :: "'t list \<Rightarrow> string option"
  cursor_set :: "64 word \<Rightarrow> string option"

datatype tick_error =
    LatestBlockFailed string
  | FetchFailed string
  | InsertFailed string
  | SetLastProcessedFailed string

text \<open>
  \<open>IngestionService.processBlocks\<close>: Go's \<open>(uint64, error)\<close> and the service. The
  publication of the transfers has no effect on the service and no result.
\<close>

definition processBlocks ::
  "'t tick_env \<Rightarrow> IngestionService \<Rightarrow> 64 word \<Rightarrow>
   ((64 word \<times> tick_error option) \<times> IngestionService) option" where
  "processBlocks env s fromBlock =
     (case latest env of
        Inl e \<Rightarrow> Some ((fromBlock, Some (LatestBlockFailed e)), s)
      | Inr latestBlock \<Rightarrow>
          if fromBlock > latestBlock then Some ((fromBlock, None), s)
          else
            (let toBlock = fromBlock + batchSize s - 1;
                 toBlock = (if toBlock > latestBlock then latestBlock else toBlock)
             in case fetched env fromBlock toBlock of
                  Inl e \<Rightarrow>
                    (if adaptiveBatch s
                     then map_option (\<lambda>s'. ((fromBlock, Some (FetchFailed e)), s'))
                            (adjustBatchSizeOnFailure s)
                     else Some ((fromBlock, Some (FetchFailed e)), s))
                | Inr transfers \<Rightarrow>
                    (case (if length transfers > 0 then inserted env transfers else None) of
                       Some e \<Rightarrow>
                         (if adaptiveBatch s
                          then map_option (\<lambda>s'. ((fromBlock, Some (InsertFailed e)), s'))
                                 (adjustBatchSizeOnFailure s)
                          else Some ((fromBlock, Some (InsertFailed e)), s))
                     | None \<Rightarrow>
                         (case cursor_set env toBlock of
                            Some e \<Rightarrow> Some ((fromBlock, Some (SetLastProcessedFailed e)), s)
                          | None \<Rightarrow>
                              Some ((toBlock + 1, None),
                                    if adaptiveBatch s then adjustBatchSizeOnSuccess s else s)))))"

text \<open>
  The loop of \<open>Start\<close> over a sequence of ticks: a tick that returns an error leaves
  \<open>currentBlock\<close> as it is.
\<close>

fun ticks ::
  "'t tick_env list \<Rightarrow> IngestionService \<Rightarrow> 64 word \<Rightarrow> (IngestionService \<times> 64 word) option" where
  "ticks [] s currentBlock = Some (s, currentBlock)"
| "ticks (env # envs) s currentBlock =
     (case processBlocks env s currentBlock of
        None \<Rightarrow> None
      | Some ((nextBlock, err), s') \<Rightarrow>
          (case err of
             Some e \<Rightarrow> ticks envs s' currentBlock
           | None \<Rightarrow> ticks envs s' nextBlock))"


text \<open>The current batch size lies between the configured bounds.\<close>

definition in_bounds :: "IngestionService \<Rightarrow> bool" where
  "in_bounds s = (batchMinSize s \<le> currentBatchSize s \<and> currentBatchSize s \<le> batchMaxSize s)"

section \<open>Package models\<close>

text \<open>
  \<open>type Transfer struct\<close>, without the \<open>ID\<close> MongoDB assigns. \<open>'d\<close> is the
  type of the driver's \<open>primitive.Decimal128\<close>, modelled with the parser; a
  \<open>float64\<close> is the rational number it stands for; a \<open>time.Time\<close> is a number;
  Go's \<open>uint\<close> has 64 bits.
\<close>

record 'd Transfer =
  EventSignature :: string
  Token :: string
  From :: string
  To :: string
  Value :: 'd
  ValueString :: string
  ValueDecimal :: rat
  BlockNumber :: "64 word"
  TxHash :: string
  TxIndex :: "64 word"
  LogIndex :: "64 word"
  Timestamp :: int
  CreatedAt :: int

section \<open>Decimal strings: \<open>strconv.FormatUint\<close>, \<open>strconv.ParseUint\<close>, \<open>big.Int.String\<close>\<close>

text \<open>
  Go's library, in base 10: \<open>decimal\<close> writes a number without leading zeros;
  \<open>ParseUint\<close> accepts a non-empty string of digits whose value is below \<open>2^64\<close>
  and fails (\<open>None\<close>) on anything else, a sign included.
\<close>

definition digit_char :: "nat \<Rightarrow> char" where
  "digit_char d = ''0123456789'' ! d"

function decimal :: "nat \<Rightarrow> string" where
  "decimal n = (if n < 10 then [digit_char n] else decimal (n div 10) @ [digit_char (n mod 10)])"
  by pat_completeness auto
termination
  by (relation "measure id") auto

declare decimal.simps [simp del]

definition FormatUint :: "64 word \<Rightarrow> string" where
  "FormatUint w = decimal (unat w)"

definition digit_val :: "char \<Rightarrow> nat option" where
  "digit_val c =
     (let k = (of_char c :: nat) in if 48 \<le> k \<and> k \<le> 57 then Some (k - 48) else None)"


fun digits_val :: "nat \<Rightarrow> string \<Rightarrow> nat option" where
  "digits_val acc [] = Some acc"
| "digits_val acc (c # cs) =
     (case digit_val c of None \<Rightarrow> None | Some d \<Rightarrow> digits_val (acc * 10 + d) cs)"

definition ParseUint :: "string \<Rightarrow> 64 word option" where
  "ParseUint s =
     (if s = [] then None
      else case digits_val 0 s of
             None \<Rightarrow> None
           | Some n \<Rightarrow> if n < 2 ^ 64 then Some (word_of_nat n) else None)"


section \<open>Package cache\<close>

text \<open>
  \<open>type RedisCache struct\<close>, with the value Redis holds under the key
  \<open>ethereum:last_block\<close> (\<open>None\<close>: the key does not exist). Whether Redis answers a
  command is an argument of each method.
\<close>

record RedisCache =
  enabled :: bool
  last_block :: "string option"

datatype cache_error = ErrCacheDisabled | RedisFailed | InvalidBlockNumber

text \<open>\<open>RedisCache.GetLastProcessedBlock\<close>: \<open>redis.Nil\<close> (no such key) gives \<open>(0, nil)\<close>.\<close>

definition GetLastProcessedBlock_cache :: "bool \<Rightarrow> RedisCache \<Rightarrow> cache_error + 64 word" where
  "GetLastProcessedBlock_cache redis_up c =
     (if \<not> enabled c then Inl ErrCacheDisabled
      else if \<not> redis_up then Inl RedisFailed
      else case last_block c of
             None \<Rightarrow> Inr 0
           | Some val \<Rightarrow>
               (case ParseUint val of
                  None \<Rightarrow> Inl InvalidBlockNumber
                | Some blockNum \<Rightarrow> Inr blockNum))"

text \<open>\<open>RedisCache.SetLastProcessedBlock\<close>: the error and the cache.\<close>

definition SetLastProcessedBlock_cache ::
  "bool \<Rightarrow> RedisCache \<Rightarrow> 64 word \<Rightarrow> cache_error option \<times> RedisCache" where
  "SetLastProcessedBlock_cache redis_up c blockNumber =
     (if \<not> enabled c then (Some ErrCacheDisabled, c)
      else if \<not> redis_up then (Some RedisFailed, c)
      else (None, c\<lparr>last_block := Some (FormatUint blockNumber)\<rparr>))"

section \<open>Package repository\<close>

text \<open>
  \<open>type MongoRepository struct\<close>: the documents of the collection \<open>transfers\<close>, the
  \<open>block_number\<close> of each document of \<open>processed_blocks\<close>, and the cache, \<open>None\<close>
  for a \<open>nil\<close> interface.
\<close>

record 't MongoRepository =
  transfersColl :: "'t list"
  processedColl :: "64 word list"
  cache :: "RedisCache option"

text \<open>
  What a call reads from outside: whether MongoDB answers, whether Redis answers the
  call's own command, and whether Redis answers the asynchronous \<open>SET\<close> that warms the
  cache after a read from MongoDB (the goroutine is run before the call returns).
\<close>

record store_env =
  mongo_up :: bool
  redis_up :: bool
  redis_up_later :: bool

datatype repo_error = MongoFailed

text \<open>
  \<open>MongoRepository.GetLastProcessedBlock\<close>. \<open>FindOne\<close> with a descending sort on
  \<open>block_number\<close> finds the greatest block number, and \<open>ErrNoDocuments\<close> in an
  empty collection.
\<close>

definition GetLastProcessedBlock ::
  "store_env \<Rightarrow> 't MongoRepository \<Rightarrow> (repo_error + 64 word) \<times> 't MongoRepository" where
  "GetLastProcessedBlock env r =
     (case (case cache r of
              None \<Rightarrow> None
            | Some c \<Rightarrow>
                (case GetLastProcessedBlock_cache (redis_up env) c of
                   Inr blockNum \<Rightarrow> Some blockNum
                 | Inl e \<Rightarrow> None)) of
        Some blockNum \<Rightarrow> (Inr blockNum, r)
      | None \<Rightarrow>
          if \<not> mongo_up env then (Inl MongoFailed, r)
          else if processedColl r = [] then (Inr 0, r)
          else
            (let blockNumber = foldr max (processedColl r) 0 in
             case cache r of
               Some c \<Rightarrow>
                 if blockNumber > 0
                 then (Inr blockNumber,
                       r\<lparr>cache := Some (snd (SetLastProcessedBlock_cache
                                                 (redis_up_later env) c blockNumber))\<rparr>)
                 else (Inr blockNumber, r)
             | None \<Rightarrow> (Inr blockNumber, r)))"

text \<open>
  \<open>MongoRepository.SetLastProcessedBlock\<close>: an upsert of the document with this
  \<open>block_number\<close>, then the write to the cache, whose error is dropped.
\<close>

definition SetLastProcessedBlock ::
  "store_env \<Rightarrow> 't MongoRepository \<Rightarrow> 64 word \<Rightarrow> repo_error option \<times> 't MongoRepository" where
  "SetLastProcessedBlock env r blockNumber =
     (if \<not> mongo_up env then (Some MongoFailed, r)
      else
        (let r1 = (if blockNumber \<in> set (processedColl r) then r
                   else r\<lparr>processedColl := processedColl r @ [blockNumber]\<rparr>)
         in case cache r1 of
              None \<Rightarrow> (None, r1)
            | Some c \<Rightarrow>
                (None, r1\<lparr>cache := Some (snd (SetLastProcessedBlock_cache
                                                (redis_up env) c blockNumber))\<rparr>)))"

text \<open>
  The errors of the driver's \<open>BulkWrite\<close>: a \<open>mongo.BulkWriteException\<close> with its
  write errors and the code of its write concern error, if any, or an error that does not
  come from the server. Of a write error the index and the code are kept; its message is
  left out.
\<close>

record WriteError =
  Index :: nat
  Code :: int

datatype mongo_error = BulkWriteException "WriteError list" "int option" | OtherError string

text \<open>
  \<open>MongoRepository.InsertTransfers\<close>. The driver's \<open>BulkWrite\<close> (collection and
  documents to error and collection) and \<open>mongo.IsDuplicateKeyError\<close> are arguments.
\<close>

definition InsertTransfers ::
  "('t list \<Rightarrow> 't list \<Rightarrow> mongo_error option \<times> 't list) \<Rightarrow> (mongo_error \<Rightarrow> bool) \<Rightarrow>
   't MongoRepository \<Rightarrow> 't list \<Rightarrow> mongo_error option \<times> 't MongoRepository" where
  "InsertTransfers BulkWrite IsDuplicateKeyError r transfers =
     (if length transfers = 0 then (None, r)
      else
        (case BulkWrite (transfersColl r) transfers of
           (Some err, coll) \<Rightarrow>
             if IsDuplicateKeyError err then (None, r\<lparr>transfersColl := coll\<rparr>)
             else (Some err, r\<lparr>transfersColl := coll\<rparr>)
         | (None, coll) \<Rightarrow> (None, r\<lparr>transfersColl := coll\<rparr>)))"

text \<open>The key of the unique index \<open>createIndexes\<close> builds: \<open>(tx_hash, log_index)\<close>.\<close>

definition unique_key :: "('d, 'z) Transfer_scheme \<Rightarrow> string \<times> 64 word" where
  "unique_key t = (TxHash t, LogIndex t)"

text \<open>
  MongoDB's unordered bulk insert into a collection with a unique index on \<open>key\<close>:
  every document is tried; one the server rejects (\<open>rejected\<close> gives the code) or whose
  key is in the collection is left out and reported with its index, code 11000 for the
  duplicate, and the others are inserted.
\<close>

fun insert_unordered ::
  "('t \<Rightarrow> 'k) \<Rightarrow> ('t \<Rightarrow> int option) \<Rightarrow> nat \<Rightarrow> 't list \<Rightarrow> 't list \<Rightarrow> 't list \<times> WriteError list" where
  "insert_unordered key rejected i coll [] = (coll, [])"
| "insert_unordered key rejected i coll (doc # docs) =
     (case rejected doc of
        Some c \<Rightarrow>
          (let (coll', errs) = insert_unordered key rejected (Suc i) coll docs
           in (coll', \<lparr>Index = i, Code = c\<rparr> # errs))
      | None \<Rightarrow>
          if key doc \<in> key ` set coll then
            (let (coll', errs) = insert_unordered key rejected (Suc i) coll docs
             in (coll', \<lparr>Index = i, Code = 11000\<rparr> # errs))
          else insert_unordered key rejected (Suc i) (coll @ [doc]) docs)"

definition mongo_BulkWrite ::
  "('t \<Rightarrow> 'k) \<Rightarrow> ('t \<Rightarrow> int option) \<Rightarrow> bool \<Rightarrow> 't list \<Rightarrow> 't list \<Rightarrow>
   mongo_error option \<times> 't list" where
  "mongo_BulkWrite key rejected up coll docs =
     (if \<not> up then (Some (OtherError ''server selection error''), coll)
      else
        (let (coll', errs) = insert_unordered key rejected 0 coll docs
         in (if errs = [] then None else Some (BulkWriteException errs None), coll')))"

text \<open>
  The driver's \<open>mongo.IsDuplicateKeyError\<close> on these errors: on a
  \<open>BulkWriteException\<close> it is \<open>HasErrorCode\<close> for the duplicate-key codes 11000,
  11001 and 12582, which holds as soon as one of the errors has the code, and it is false
  of an error that does not come from the server. The driver's fourth alternative, the
  code 16460 with a message that contains \<open>E11000\<close>, needs the messages and is not
  covered: the model takes an error of the code 16460 for no duplicate.
\<close>

definition duplicate_code :: "int \<Rightarrow> bool" where
  "duplicate_code c = (c = 11000 \<or> c = 11001 \<or> c = 12582)"

definition mongo_IsDuplicateKeyError :: "mongo_error \<Rightarrow> bool" where
  "mongo_IsDuplicateKeyError err =
     (case err of
        BulkWriteException writeErrors writeConcernError \<Rightarrow>
          (case writeConcernError of None \<Rightarrow> False | Some c \<Rightarrow> duplicate_code c) \<or>
          list_ex (\<lambda>we. duplicate_code (Code we)) writeErrors
      | OtherError e \<Rightarrow> False)"

text \<open>A transfer with a given transaction hash and log index, for the examples.\<close>

definition example_transfer :: "string \<Rightarrow> 64 word \<Rightarrow> unit Transfer" where
  "example_transfer h i =
     \<lparr>EventSignature = ''Transfer'', Token = ''0x01'', From = ''0x02'', To = ''0x03'',
      Value = (), ValueString = ''1'', ValueDecimal = 0, BlockNumber = 10, TxHash = h,
      TxIndex = 0, LogIndex = i, Timestamp = 0, CreatedAt = 0\<rparr>"

section \<open>Package ethereum: the log parser\<close>

text \<open>
  go-ethereum's \<open>types.Log\<close>: a \<open>common.Address\<close> is 20 bytes and a
  \<open>common.Hash\<close> 32 bytes, read as big-endian numbers. The fields \<open>BlockNumber\<close>,
  \<open>TxHash\<close>, \<open>TxIndex\<close> and \<open>Index\<close> carry a suffix: the transfer has
  fields of the same names.
\<close>

record Log =
  Address :: "160 word"
  Topics :: "256 word list"
  Data :: "8 word list"
  BlockNumber_log :: "64 word"
  TxHash_log :: "256 word"
  TxIndex_log :: "64 word"
  Index_log :: "64 word"

definition ERC20TransferEventSignature :: "256 word" where
  "ERC20TransferEventSignature =
     0xddf252ad1be2c89b69c2b068fc378daa952ba7f163c4a11628f55a4df523b3ef"

definition EventSignatureTransfer :: string where
  "EventSignatureTransfer = ''Transfer''"

text \<open>
  \<open>strings.ToLower(a.Hex())\<close> for an address, and \<open>h.Hex()\<close> for a hash:
  \<open>0x\<close> and the bytes in hexadecimal. \<open>Address.Hex\<close> writes some letters in upper
  case (the EIP-55 checksum), which \<open>ToLower\<close> undoes.
\<close>

definition hex_char :: "nat \<Rightarrow> char" where
  "hex_char d = ''0123456789abcdef'' ! d"

function hex_digits :: "nat \<Rightarrow> nat \<Rightarrow> string" where
  "hex_digits k v =
     (if k = 0 then [] else hex_digits (k - 1) (v div 16) @ [hex_char (v mod 16)])"
  by pat_completeness auto
termination
  by (relation "measure fst") auto

declare hex_digits.simps [simp del]

text \<open>\<open>common.BytesToAddress\<close> on the 32 bytes of a hash keeps the last 20.\<close>

definition BytesToAddress :: "256 word \<Rightarrow> 160 word" where
  "BytesToAddress h = ucast h"

definition Address_Hex_lower :: "160 word \<Rightarrow> string" where
  "Address_Hex_lower a = ''0x'' @ hex_digits 40 (unat a)"

definition Hash_Hex :: "256 word \<Rightarrow> string" where
  "Hash_Hex h = ''0x'' @ hex_digits 64 (unat h)"

text \<open>\<open>big.Int.SetBytes\<close>: the bytes as a big-endian unsigned number.\<close>

definition SetBytes :: "8 word list \<Rightarrow> nat" where
  "SetBytes buf = foldl (\<lambda>acc b. acc * 256 + unat b) 0 buf"

text \<open>
  \<open>math/big\<close>'s floating point. A \<open>big.Float\<close> is a mantissa and a binary exponent,
  standing for \<open>mant * 2^expo\<close>. \<open>round_quotient p a b\<close> is the quotient \<open>a / b\<close>
  rounded to \<open>p\<close> bits, to nearest and to even on a tie, as \<open>Quo\<close> and \<open>Float64\<close>
  round. \<open>SetInt\<close> gives its result the precision \<open>max (BitLen x) 64\<close> and \<open>Quo\<close>
  takes the larger precision of its operands. \<open>Float64\<close> rounds to the 53 bits of a
  double; the model covers the doubles that are normal, which the quotients of a 256-bit
  number by \<open>10^18\<close> are.
\<close>

function BitLen :: "nat \<Rightarrow> nat" where
  "BitLen n = (if n = 0 then 0 else Suc (BitLen (n div 2)))"
  by pat_completeness auto
termination
  by (relation "measure id") auto

declare BitLen.simps [simp del]

record bigfloat =
  mant :: nat
  expo :: int

definition float_value :: "bigfloat \<Rightarrow> rat" where
  "float_value x = of_nat (mant x) * 2 powi expo x"

definition floor_log2 :: "nat \<Rightarrow> nat \<Rightarrow> int" where
  "floor_log2 a b =
     (let k = int (BitLen a) - int (BitLen b)
      in if (if k \<ge> 0 then b * 2 ^ nat k \<le> a else b \<le> a * 2 ^ nat (- k)) then k else k - 1)"

definition round_half_even :: "nat \<Rightarrow> nat \<Rightarrow> nat" where
  "round_half_even n d =
     (let f = n div d; r = n mod d
      in if 2 * r < d then f else if 2 * r > d then f + 1 else if even f then f else f + 1)"

definition round_quotient :: "nat \<Rightarrow> nat \<Rightarrow> nat \<Rightarrow> bigfloat" where
  "round_quotient p a b =
     (if a = 0 then \<lparr>mant = 0, expo = 0\<rparr>
      else
        (let e = floor_log2 a b + 1 - int p;
             m = (if e \<ge> 0 then round_half_even a (b * 2 ^ nat e)
                  else round_half_even (a * 2 ^ nat (- e)) b)
         in \<lparr>mant = m, expo = e\<rparr>))"

definition Quo :: "nat \<Rightarrow> nat \<Rightarrow> bigfloat" where
  "Quo x y = round_quotient (max (max (BitLen x) 64) (max (BitLen y) 64)) x y"

definition Float64 :: "bigfloat \<Rightarrow> rat" where
  "Float64 x =
     float_value
       (if expo x \<ge> 0 then round_quotient 53 (mant x * 2 ^ nat (expo x)) 1
        else round_quotient 53 (mant x) (2 ^ nat (- expo x)))"

text \<open>\<open>parseValueDecimal\<close>.\<close>

definition parseValueDecimal :: "nat \<Rightarrow> rat" where
  "parseValueDecimal v = Float64 (Quo v (10 ^ 18))"

text \<open>
  The driver's \<open>primitive.Decimal128\<close> (package \<open>bson/primitive\<close> of
  \<open>go.mongodb.org/mongo-driver\<close>, which the parser imports): the two 64-bit halves
  \<open>h\<close> and \<open>l\<close> of the IEEE 754 decimal128 encoding. \<open>NewDecimal128\<close> builds one
  from its halves; with both 0 it is the number zero.
\<close>

record Decimal128 =
  h_dec :: "64 word"
  l_dec :: "64 word"

definition primitive_NewDecimal128 :: "64 word \<Rightarrow> 64 word \<Rightarrow> Decimal128" where
  "primitive_NewDecimal128 hv lv = \<lparr>h_dec = hv, l_dec = lv\<rparr>"

definition MaxDecimal128Exp :: int where
  "MaxDecimal128Exp = 6111"

definition MinDecimal128Exp :: int where
  "MinDecimal128Exp = - 6176"

text \<open>\<open>maxS\<close>: the greatest significand, of 34 digits.\<close>

definition maxS :: int where
  "maxS = 9999999999999999999999999999999999"

text \<open>\<open>big.Int.QuoRem\<close>: the quotient truncated towards zero, and the remainder.\<close>

definition QuoRem :: "int \<Rightarrow> int \<Rightarrow> int \<times> int" where
  "QuoRem x y = (sgn x * sgn y * (\<bar>x\<bar> div \<bar>y\<bar>), sgn x * (\<bar>x\<bar> mod \<bar>y\<bar>))"

text \<open>
  The three loops of the driver's \<open>ParseDecimal128FromBigInt\<close>, on the significand
  \<open>bi\<close> and the exponent \<open>ex\<close> (Go's \<open>exp\<close>). The first divides a significand
  above \<open>maxS\<close> by ten for as long as the digit it drops is 0, and fails (\<open>None\<close>)
  when the digit is not 0 or the exponent leaves the range; the second and the third
  bring an exponent below and above the range into it.
\<close>

function reduce_loop :: "int \<Rightarrow> int \<Rightarrow> (int \<times> int) option" where
  "reduce_loop bi ex =
     (if \<bar>bi\<bar> > maxS then
        (if snd (QuoRem bi 10) \<noteq> 0 then None
         else if ex + 1 > MaxDecimal128Exp then None
         else reduce_loop (fst (QuoRem bi 10)) (ex + 1))
      else Some (bi, ex))"
  by pat_completeness auto
termination
  by (relation "measure (\<lambda>(bi, ex). nat \<bar>bi\<bar>)")
    (auto simp: QuoRem_def maxS_def abs_mult abs_sgn_eq)

declare reduce_loop.simps [simp del]

function subnormal_loop :: "int \<Rightarrow> int \<Rightarrow> (int \<times> int) option" where
  "subnormal_loop bi ex =
     (if ex < MinDecimal128Exp then
        (if snd (QuoRem bi 10) \<noteq> 0 then None
         else subnormal_loop (fst (QuoRem bi 10)) (ex + 1))
      else Some (bi, ex))"
  by pat_completeness auto
termination
  by (relation "measure (\<lambda>(bi, ex). nat (MinDecimal128Exp - ex))") auto

declare subnormal_loop.simps [simp del]

function clamped_loop :: "int \<Rightarrow> int \<Rightarrow> (int \<times> int) option" where
  "clamped_loop bi ex =
     (if ex > MaxDecimal128Exp then
        (if \<bar>bi * 10\<bar> > maxS then None
         else clamped_loop (bi * 10) (ex - 1))
      else Some (bi, ex))"
  by pat_completeness auto
termination
  by (relation "measure (\<lambda>(bi, ex). nat (ex - MaxDecimal128Exp))") auto

declare clamped_loop.simps [simp del]

text \<open>
  \<open>ParseDecimal128FromBigInt\<close>: \<open>None\<close> for its \<open>false\<close>. A significand of zero
  has its exponent moved into the range first. The result holds the low 64 bits of the
  significand in \<open>l\<close>, and in \<open>h\<close> the bits above them, the biased exponent from bit
  49 on, and the sign in bit 63.
\<close>

definition ParseDecimal128FromBigInt :: "int \<Rightarrow> int \<Rightarrow> Decimal128 option" where
  "ParseDecimal128FromBigInt bi ex =
     (let ex0 = (if bi = 0 then
                   (let e = (if ex > MaxDecimal128Exp then MaxDecimal128Exp else ex)
                    in if e < MinDecimal128Exp then MinDecimal128Exp else e)
                 else ex)
      in case reduce_loop bi ex0 of
           None \<Rightarrow> None
         | Some (bi1, ex1) \<Rightarrow>
             (case subnormal_loop bi1 ex1 of
                None \<Rightarrow> None
              | Some (bi2, ex2) \<Rightarrow>
                  (case clamped_loop bi2 ex2 of
                     None \<Rightarrow> None
                   | Some (bi3, ex3) \<Rightarrow>
                       Some \<lparr>h_dec = word_of_nat (nat \<bar>bi3\<bar> div 2 ^ 64)
                                    OR push_bit 49 (word_of_int (ex3 - MinDecimal128Exp) AND 0x3fff)
                                    OR (if bi3 < 0 then push_bit 63 1 else 0),
                             l_dec = word_of_nat (nat \<bar>bi3\<bar>)\<rparr>)))"

text \<open>\<open>strings.Trim\<close>: the string without the characters of the cutset at its two ends.\<close>

definition Trim :: "string \<Rightarrow> string \<Rightarrow> string" where
  "Trim s cutset =
     rev (dropWhile (\<lambda>c. c \<in> set cutset) (rev (dropWhile (\<lambda>c. c \<in> set cutset) s)))"

text \<open>
  The driver's \<open>primitive.ParseDecimal128\<close> (\<open>None\<close>: it returned an error) on the
  strings \<open>big.Int.String\<close> gives for a number that is not negative, which are the
  strings the parser passes to it: digits only. On such a string the driver's regular
  expression takes the whole string for the integer part, without a fraction and with the
  exponent 0; a string left with more than 35 characters by \<open>Trim\<close> is refused, and the
  others go to \<open>ParseDecimal128FromBigInt\<close>. Strings with a sign, a fraction or an
  exponent, and the names of the infinities and of NaN, are outside the model: the
  definition answers \<open>None\<close> on them as on any string that is no number.
\<close>

definition primitive_ParseDecimal128 :: "string \<Rightarrow> Decimal128 option" where
  "primitive_ParseDecimal128 s =
     (if s = [] then None
      else case digits_val 0 s of
             None \<Rightarrow> None
           | Some bi \<Rightarrow>
               if length (Trim s ''-0'') > 35 then None
               else ParseDecimal128FromBigInt (int bi) 0)"

text \<open>
  \<open>ParseTransferLog\<close>. The driver's \<open>primitive.ParseDecimal128\<close> and the value of
  \<open>primitive.NewDecimal128(0, 0)\<close> are arguments, given above, and so is the clock
  \<open>time.Now()\<close> reads. The error of \<open>ParseDecimal128\<close> is dropped: the code neither
  returns nor logs it.
\<close>

datatype parse_error = WrongTopicCount nat | NotTransferEvent | WrongDataLength nat

definition ParseTransferLog ::
  "(string \<Rightarrow> 'd option) \<Rightarrow> 'd \<Rightarrow> int \<Rightarrow> Log \<Rightarrow> int \<Rightarrow> parse_error + 'd Transfer" where
  "ParseTransferLog ParseDecimal128 zero now lg blockTime =
     (if length (Topics lg) \<noteq> 3 then Inl (WrongTopicCount (length (Topics lg)))
      else if Topics lg ! 0 \<noteq> ERC20TransferEventSignature then Inl NotTransferEvent
      else
        (let from = BytesToAddress (Topics lg ! 1);
             to = BytesToAddress (Topics lg ! 2)
         in if length (Data lg) \<noteq> 32 then Inl (WrongDataLength (length (Data lg)))
            else
              (let v = SetBytes (Data lg);
                   valueStr = decimal v;
                   decimalValue = (case ParseDecimal128 valueStr of
                                     Some d \<Rightarrow> d
                                   | None \<Rightarrow> zero)
               in Inr \<lparr>EventSignature = EventSignatureTransfer,
                       Token = Address_Hex_lower (Address lg),
                       From = Address_Hex_lower from,
                       To = Address_Hex_lower to,
                       Value = decimalValue,
                       ValueString = valueStr,
                       ValueDecimal = parseValueDecimal v,
                       BlockNumber = BlockNumber_log lg,
                       TxHash = Hash_Hex (TxHash_log lg),
                       TxIndex = TxIndex_log lg,
                       LogIndex = Index_log lg,
                       Timestamp = blockTime,
                       CreatedAt = now\<rparr>)))"

text \<open>
  A log of a transfer of \<open>10^18\<close> units: the data is the 32 bytes of
  \<open>0x0de0b6b3a7640000\<close>.
\<close>

definition example_log :: Log where
  "example_log =
     \<lparr>Address = 0xdAC17F958D2ee523a2206206994597C13D831ec7,
      Topics = [0xddf252ad1be2c89b69c2b068fc378daa952ba7f163c4a11628f55a4df523b3ef,
                0x000000000000000000000000A9D1e08C7793af67e9d92fe308d5697FB81d3E43,
                0x00000000000000000000000028C6c06298d514Db089934071355E5743bf21d60],
      Data = [0,0,0,0,0,0,0,0,0,0,0,0,0,0,0,0,0,0,0,0,0,0,0,0,
              0x0d,0xe0,0xb6,0xb3,0xa7,0x64,0,0],
      BlockNumber_log = 17000000,
      TxHash_log = 0x1111111111111111111111111111111111111111111111111111111111111111,
      TxIndex_log = 3, Index_log = 7\<rparr>"

text \<open>
  The same log with the greatest amount its 32 bytes of data can hold, \<open>2^256 - 1\<close>.
\<close>

definition max_value_log :: Log where
  "max_value_log =
     example_log\<lparr>Data := [0xff,0xff,0xff,0xff,0xff,0xff,0xff,0xff,
                            0xff,0xff,0xff,0xff,0xff,0xff,0xff,0xff,
                            0xff,0xff,0xff,0xff,0xff,0xff,0xff,0xff,
                            0xff,0xff,0xff,0xff,0xff,0xff,0xff,0xff]\<rparr>"

chapter \<open>Properties\<close>

section \<open>The event bus\<close>

lemma try_send_full: "cap c \<le> length (queue c) \<Longrightarrow> try_send d c = c"
  by (simp add: try_send_def)

lemma map_try_send_full:
  "list_all (\<lambda>(k, c). cap c \<le> length (queue c)) cs \<Longrightarrow>
   map (\<lambda>(k, c). (k, try_send d c)) cs = cs"
  by (induction cs) (auto simp: try_send_full)

lemma Publish_buffer_subscribed:
  "clients s \<noteq> [] \<Longrightarrow> buffer (Publish marshal s v) = buffer s"
  by (simp add: Publish_def split: iface.splits option.splits)

lemma Publish_all_full:
  "clients s \<noteq> [] \<Longrightarrow> all_full s \<Longrightarrow> Publish marshal s v = s"
  by (simp add: Publish_def all_full_def map_try_send_full split: iface.splits option.splits)

lemma Publish_clients_unsubscribed:
  "clients s = [] \<Longrightarrow> clients (Publish marshal s v) = []"
  by (simp add: Publish_def split: iface.splits)

lemma Publish_bufferSize: "bufferSize (Publish marshal s v) = bufferSize s"
  by (simp add: Publish_def split: iface.splits option.splits)

lemma Publish_buffer_unsubscribed:
  "clients s = [] \<Longrightarrow>
   buffer (Publish marshal s (Transfer_ptr t)) =
     (if int (length (buffer s)) < bufferSize s then buffer s @ [t] else buffer s)"
  by (simp add: Publish_def)

lemma publish_all_unsubscribed:
  "clients s = [] \<Longrightarrow>
   clients (publish_all marshal s (map Transfer_ptr ts)) = [] \<and>
   bufferSize (publish_all marshal s (map Transfer_ptr ts)) = bufferSize s \<and>
   buffer (publish_all marshal s (map Transfer_ptr ts)) =
     buffer s @ take (nat (bufferSize s) - length (buffer s)) ts"
proof (induction ts arbitrary: s)
  case Nil
  then show ?case by (simp add: publish_all_def)
next
  case (Cons t ts)
  let ?s1 = "Publish marshal s (Transfer_ptr t)"
  have c1: "clients ?s1 = []"
    using Cons.prems by (rule Publish_clients_unsubscribed)
  have step: "publish_all marshal s (Transfer_ptr t # map Transfer_ptr ts) =
      publish_all marshal ?s1 (map Transfer_ptr ts)"
    by (simp add: publish_all_def)
  note ih = Cons.IH [OF c1]
  show ?case
  proof (cases "int (length (buffer s)) < bufferSize s")
    case True
    then have b1: "buffer ?s1 = buffer s @ [t]"
      using Cons.prems by (simp add: Publish_buffer_unsubscribed)
    from True have "nat (bufferSize s) - length (buffer s) =
        Suc (nat (bufferSize s) - Suc (length (buffer s)))"
      by linarith
    then show ?thesis
      using ih by (simp add: step b1 c1 Publish_bufferSize)
  next
    case False
    then have b1: "buffer ?s1 = buffer s"
      using Cons.prems by (simp add: Publish_buffer_unsubscribed)
    from False have "nat (bufferSize s) - length (buffer s) = 0"
      by linarith
    then show ?thesis
      using ih by (simp add: step b1 c1 Publish_bufferSize)
  qed
qed

lemma replay_room:
  "length (queue c) + length ts \<le> cap c \<Longrightarrow>
   replay marshal ts c = c\<lparr>queue := queue c @ List.map_filter marshal ts\<rparr>"
proof (induction ts arbitrary: c)
  case Nil
  then show ?case by simp
next
  case (Cons t ts)
  show ?case
  proof (cases "marshal t")
    case None
    then show ?thesis
      using Cons.IH [of c] Cons.prems by simp
  next
    case (Some d)
    then show ?thesis
      using Cons.IH [of "c\<lparr>queue := queue c @ [d]\<rparr>"] Cons.prems
      by simp
  qed
qed

lemma Subscribe_received:
  "int (length (buffer s)) \<le> bufferSize s \<Longrightarrow>
   received (fst (Subscribe marshal s)) (snd (Subscribe marshal s)) =
     List.map_filter marshal (buffer s)"
proof -
  assume len: "int (length (buffer s)) \<le> bufferSize s"
  let ?k = "fresh_chan (clients s)"
  have fresh: "\<And>cs. map_of cs (fresh_chan cs) = None"
  proof -
    fix cs :: "(nat \<times> chan) list"
    have "k \<in> fst ` set cs \<Longrightarrow> k \<le> foldr max (map fst cs) 0" for k
      by (induction cs) (auto simp: le_max_iff_disj)
    then have "fresh_chan cs \<notin> fst ` set cs"
      by (fastforce simp: fresh_chan_def)
    then show "map_of cs (fresh_chan cs) = None"
      by (simp add: map_of_eq_None_iff)
  qed
  have "replay marshal (buffer s) \<lparr>cap = nat (bufferSize s), queue = []\<rparr> =
      \<lparr>cap = nat (bufferSize s), queue = List.map_filter marshal (buffer s)\<rparr>"
    using len by (subst replay_room) auto
  then show ?thesis
    by (simp add: Subscribe_def received_def Let_def map_add_def fresh)
qed

text \<open>
  C2, the claim as it is written, at a stream of buffer size 2 with no subscriber and
  the records 1, 2, 3 published in this order: the buffer keeps 1 and 2 and drops 3, the
  newest, and the subscriber that joins is replayed 1 and 2, not the most recent 2 and 3.
\<close>

theorem replay_buffer_drops_newest_counterexample:
  "buffer (publish_all (\<lambda>n. Some (replicate n CHR ''r''))
            \<lparr>clients = [], buffer = [], bufferSize = 2\<rparr>
            [Transfer_ptr (1::nat), Transfer_ptr 2, Transfer_ptr 3]) = [1, 2] \<and>
   buffer (publish_all (\<lambda>n. Some (replicate n CHR ''r''))
            \<lparr>clients = [], buffer = [], bufferSize = 2\<rparr>
            [Transfer_ptr (1::nat), Transfer_ptr 2, Transfer_ptr 3]) \<noteq> [2, 3] \<and>
   received 1 (snd (Subscribe (\<lambda>n. Some (replicate n CHR ''r''))
      (publish_all (\<lambda>n. Some (replicate n CHR ''r''))
            \<lparr>clients = [], buffer = [], bufferSize = 2\<rparr>
            [Transfer_ptr (1::nat), Transfer_ptr 2, Transfer_ptr 3]))) = [''r'', ''rr'']"
  by (simp add: publish_all_def Publish_def Subscribe_def received_def fresh_chan_def
      Let_def numeral_2_eq_2)

text \<open>
  C2, amended. While nobody is subscribed, \<open>Publish\<close> appends the record to the replay
  buffer as long as the buffer holds fewer than \<open>bufferSize\<close> records and drops the new
  record once it is full: the buffer never grows beyond \<open>bufferSize\<close> and keeps the
  oldest records. A subscriber that joins after the records \<open>ts\<close> were published is
  replayed the first \<open>bufferSize\<close> records of the buffer followed by \<open>ts\<close>, each in
  its JSON encoding, in publish order.
\<close>

theorem replay_buffer_keeps_oldest:
  assumes "clients s = []" and "int (length (buffer s)) \<le> bufferSize s"
  shows "buffer (Publish marshal s (Transfer_ptr t)) =
           (if int (length (buffer s)) < bufferSize s then buffer s @ [t] else buffer s) \<and>
         buffer (publish_all marshal s (map Transfer_ptr ts)) =
           take (nat (bufferSize s)) (buffer s @ ts) \<and>
         int (length (buffer (publish_all marshal s (map Transfer_ptr ts)))) \<le> bufferSize s \<and>
         received (fst (Subscribe marshal (publish_all marshal s (map Transfer_ptr ts))))
                  (snd (Subscribe marshal (publish_all marshal s (map Transfer_ptr ts)))) =
           List.map_filter marshal (take (nat (bufferSize s)) (buffer s @ ts))"
proof -
  let ?s' = "publish_all marshal s (map Transfer_ptr ts)"
  have all: "bufferSize ?s' = bufferSize s"
    "buffer ?s' = buffer s @ take (nat (bufferSize s) - length (buffer s)) ts"
    using publish_all_unsubscribed [OF assms(1), of marshal ts] by simp_all
  have le: "length (buffer s) \<le> nat (bufferSize s)"
    using assms(2) by linarith
  have buf: "buffer ?s' = take (nat (bufferSize s)) (buffer s @ ts)"
    using le by (simp add: all)
  have "length (buffer ?s') \<le> nat (bufferSize s)"
    by (simp add: buf)
  then have len: "int (length (buffer ?s')) \<le> bufferSize s"
    using assms(2) by linarith
  have "int (length (buffer ?s')) \<le> bufferSize ?s'"
    using len by (simp add: all)
  then have "received (fst (Subscribe marshal ?s')) (snd (Subscribe marshal ?s')) =
      List.map_filter marshal (buffer ?s')"
    by (rule Subscribe_received)
  then show ?thesis
    using buf len assms(1) by (simp add: Publish_buffer_unsubscribed)
qed

theorem replay_buffer_keeps_oldest_witness:
  "NewStream 2 = Some \<lparr>clients = [], buffer = [], bufferSize = 2\<rparr> \<and>
   buffer (publish_all (\<lambda>n. Some (replicate n CHR ''r''))
            \<lparr>clients = [], buffer = [], bufferSize = 2\<rparr>
            (map Transfer_ptr [1::nat, 2, 3])) = [1, 2] \<and>
   received (fst (Subscribe (\<lambda>n. Some (replicate n CHR ''r''))
              (publish_all (\<lambda>n. Some (replicate n CHR ''r''))
                \<lparr>clients = [], buffer = [], bufferSize = 2\<rparr> (map Transfer_ptr [1::nat, 2, 3]))))
            (snd (Subscribe (\<lambda>n. Some (replicate n CHR ''r''))
              (publish_all (\<lambda>n. Some (replicate n CHR ''r''))
                \<lparr>clients = [], buffer = [], bufferSize = 2\<rparr> (map Transfer_ptr [1::nat, 2, 3]))))
     = [''r'', ''rr'']"
  using replay_buffer_keeps_oldest
    [of "\<lparr>clients = [], buffer = [], bufferSize = 2\<rparr>"
        "\<lambda>n. Some (replicate n CHR ''r'')" 1 "[1::nat, 2, 3]"]
  by (simp add: NewStream_def numeral_2_eq_2)

text \<open>
  C10. \<open>Publish\<close> touches the replay buffer only when nobody is subscribed: with at
  least one client the buffer is unchanged, and when every client's channel is full the
  whole stream is unchanged, so the record is in no channel and not in the buffer, and a
  later subscriber is replayed exactly what it would have been replayed without the call.
\<close>

theorem publish_frame_when_subscribed:
  assumes "clients s \<noteq> []"
  shows "buffer (Publish marshal s v) = buffer s \<and>
         (all_full s \<longrightarrow>
            Publish marshal s v = s \<and>
            Subscribe marshal (Publish marshal s v) = Subscribe marshal s)"
  using assms by (simp add: Publish_buffer_subscribed Publish_all_full)

theorem publish_frame_when_subscribed_witness:
  "clients \<lparr>clients = [(0, \<lparr>cap = 1, queue = [''a'']\<rparr>)], buffer = [5::nat], bufferSize = 1\<rparr> \<noteq> [] \<and>
   all_full \<lparr>clients = [(0, \<lparr>cap = 1, queue = [''a'']\<rparr>)], buffer = [5::nat], bufferSize = 1\<rparr> \<and>
   Publish (\<lambda>n. Some (replicate n CHR ''r''))
     \<lparr>clients = [(0, \<lparr>cap = 1, queue = [''a'']\<rparr>)], buffer = [5::nat], bufferSize = 1\<rparr>
     (Transfer_ptr 7) =
     \<lparr>clients = [(0, \<lparr>cap = 1, queue = [''a'']\<rparr>)], buffer = [5::nat], bufferSize = 1\<rparr> \<and>
   received 1 (snd (Subscribe (\<lambda>n. Some (replicate n CHR ''r''))
     (Publish (\<lambda>n. Some (replicate n CHR ''r''))
       \<lparr>clients = [(0, \<lparr>cap = 1, queue = [''a'']\<rparr>)], buffer = [5::nat], bufferSize = 1\<rparr>
       (Transfer_ptr 7)))) = [''rrrrr'']"
  using publish_frame_when_subscribed
    [of "\<lparr>clients = [(0, \<lparr>cap = 1, queue = [''a'']\<rparr>)], buffer = [5::nat], bufferSize = 1\<rparr>"
        "\<lambda>n. Some (replicate n CHR ''r'')" "Transfer_ptr 7"]
  by (simp add: all_full_def Subscribe_def received_def fresh_chan_def Let_def
      numeral_eq_Suc)

section \<open>The circuit breaker\<close>

lemma RecordFailure_stays_unhealthy:
  "state p = StateUnhealthy \<Longrightarrow> state (RecordFailure t p) = StateUnhealthy"
  by (simp add: RecordFailure_def Let_def)

lemma RecordFailure_thresholds:
  "failureThreshold (RecordFailure t p) = failureThreshold p \<and>
   successThreshold (RecordFailure t p) = successThreshold p"
  by (simp add: RecordFailure_def Let_def)

lemma RecordSuccess_thresholds:
  "failureThreshold (RecordSuccess t p) = failureThreshold p \<and>
   successThreshold (RecordSuccess t p) = successThreshold p"
  by (simp add: RecordSuccess_def Let_def)

lemma failures_unhealthy:
  "state p = StateUnhealthy \<Longrightarrow> state (failures ts p) = StateUnhealthy"
  unfolding failures_def
  by (induction ts arbitrary: p) (simp_all add: RecordFailure_stays_unhealthy)

lemma failures_trip:
  "state p \<noteq> StateHalfOpen \<Longrightarrow> failureThreshold p \<le> failureCount p + int (length ts) \<Longrightarrow>
   ts \<noteq> [] \<Longrightarrow> state (failures ts p) = StateUnhealthy"
proof (induction ts arbitrary: p)
  case Nil
  then show ?case by simp
next
  case (Cons t ts)
  let ?q = "RecordFailure t p"
  have step: "failures (t # ts) p = failures ts ?q"
    by (simp add: failures_def)
  show ?case
  proof (cases "state ?q = StateUnhealthy")
    case True
    then show ?thesis by (simp add: step failures_unhealthy)
  next
    case False
    with Cons.prems have q: "state ?q \<noteq> StateHalfOpen"
      "failureCount ?q = failureCount p + 1" "failureCount ?q < failureThreshold p"
      by (auto simp: RecordFailure_def Let_def split: if_splits)
    with Cons.prems have "ts \<noteq> []" by auto
    moreover have "failureThreshold ?q \<le> failureCount ?q + int (length ts)"
      using Cons.prems q by (simp add: RecordFailure_thresholds)
    ultimately show ?thesis
      using Cons.IH [of ?q] q by (simp add: step)
  qed
qed

lemma RecordSuccess_stays_healthy:
  "state p = StateHealthy \<Longrightarrow> state (RecordSuccess t p) = StateHealthy"
  by (simp add: RecordSuccess_def Let_def)

lemma successes_healthy:
  "state p = StateHealthy \<Longrightarrow> state (successes ts p) = StateHealthy"
  unfolding successes_def
  by (induction ts arbitrary: p) (simp_all add: RecordSuccess_stays_healthy)

lemma successes_close:
  "state p = StateHalfOpen \<Longrightarrow> successThreshold p \<le> successCount p + int (length ts) \<Longrightarrow>
   ts \<noteq> [] \<Longrightarrow> state (successes ts p) = StateHealthy"
proof (induction ts arbitrary: p)
  case Nil
  then show ?case by simp
next
  case (Cons t ts)
  let ?q = "RecordSuccess t p"
  have step: "successes (t # ts) p = successes ts ?q"
    by (simp add: successes_def)
  show ?case
  proof (cases "state ?q = StateHealthy")
    case True
    then show ?thesis by (simp add: step successes_healthy)
  next
    case False
    with Cons.prems have q: "state ?q = StateHalfOpen"
      "successCount ?q = successCount p + 1" "successCount ?q < successThreshold p"
      by (auto simp: RecordSuccess_def Let_def split: if_splits)
    with Cons.prems have "ts \<noteq> []" by auto
    moreover have "successThreshold ?q \<le> successCount ?q + int (length ts)"
      using Cons.prems q by (simp add: RecordSuccess_thresholds)
    ultimately show ?thesis
      using Cons.IH [of ?q] q by (simp add: step)
  qed
qed

text \<open>
  The counters of every provider the program builds are never negative: they start at
  zero and are only incremented or reset.
\<close>

lemma counters_nonneg:
  "0 \<le> failureCount p \<and> 0 \<le> successCount p \<Longrightarrow>
   (0 \<le> failureCount (RecordFailure t p) \<and> 0 \<le> successCount (RecordFailure t p)) \<and>
   (0 \<le> failureCount (RecordSuccess t p) \<and> 0 \<le> successCount (RecordSuccess t p)) \<and>
   (0 \<le> failureCount (snd (IsHealthy t p)) \<and> 0 \<le> successCount (snd (IsHealthy t p)))"
  by (simp add: RecordFailure_def RecordSuccess_def IsHealthy_def Let_def)

text \<open>
  C3, the claim as it is written, at a provider with the default breaker that failed five
  times, which made it unhealthy, and that \<open>IsHealthy\<close> moved to half-open 70 s later:
  one more failure makes it unhealthy again, but \<open>failureCount\<close> is not reset: it
  goes from 5 to 6.
\<close>

theorem halfopen_failure_keeps_failureCount_counterexample:
  "state (snd (IsHealthy 70000000000
      (failures [1, 2, 3, 4, 5] (NewProvider ''a'' ''u'' 1 10 30 DefaultCircuitBreakerConfig)))) =
     StateHalfOpen \<and>
   failureCount (snd (IsHealthy 70000000000
      (failures [1, 2, 3, 4, 5] (NewProvider ''a'' ''u'' 1 10 30 DefaultCircuitBreakerConfig)))) = 5 \<and>
   state (RecordFailure 71000000000 (snd (IsHealthy 70000000000
      (failures [1, 2, 3, 4, 5] (NewProvider ''a'' ''u'' 1 10 30 DefaultCircuitBreakerConfig))))) =
     StateUnhealthy \<and>
   failureCount (RecordFailure 71000000000 (snd (IsHealthy 70000000000
      (failures [1, 2, 3, 4, 5] (NewProvider ''a'' ''u'' 1 10 30 DefaultCircuitBreakerConfig))))) = 6"
  by (simp add: failures_def RecordFailure_def IsHealthy_def NewProvider_def
      DefaultCircuitBreakerConfig_def Let_def)

text \<open>
  C3, amended. With thresholds of at least 1 and counters that are not negative:
  from Healthy, \<open>failureThreshold\<close> consecutive calls of \<open>RecordFailure\<close> end in
  Unhealthy; from half-open, \<open>successThreshold\<close> consecutive calls of
  \<open>RecordSuccess\<close> end in Healthy; and a single \<open>RecordFailure\<close> in half-open ends
  in Unhealthy with \<open>successCount\<close> and \<open>halfOpenCalls\<close> reset to zero, while
  \<open>failureCount\<close> is incremented.
\<close>

theorem circuit_breaker_transitions:
  "(state p = StateHealthy \<and> 0 \<le> failureCount p \<and> 0 < failureThreshold p \<and>
      int (length ts) = failureThreshold p
      \<longrightarrow> state (failures ts p) = StateUnhealthy) \<and>
   (state p = StateHalfOpen \<and> 0 \<le> successCount p \<and> 0 < successThreshold p \<and>
      int (length ts) = successThreshold p
      \<longrightarrow> state (successes ts p) = StateHealthy) \<and>
   (state p = StateHalfOpen
      \<longrightarrow> RecordFailure t p =
            p\<lparr>lastFailureTime := t, failureCount := failureCount p + 1, successCount := 0,
              state := StateUnhealthy, halfOpenCalls := 0\<rparr>)"
proof (intro conjI impI)
  assume a: "state p = StateHealthy \<and> 0 \<le> failureCount p \<and> 0 < failureThreshold p \<and>
      int (length ts) = failureThreshold p"
  then have "ts \<noteq> []" by auto
  with a show "state (failures ts p) = StateUnhealthy"
    by (intro failures_trip) auto
next
  assume a: "state p = StateHalfOpen \<and> 0 \<le> successCount p \<and> 0 < successThreshold p \<and>
      int (length ts) = successThreshold p"
  then have "ts \<noteq> []" by auto
  with a show "state (successes ts p) = StateHealthy"
    by (intro successes_close) auto
next
  assume "state p = StateHalfOpen"
  then show "RecordFailure t p =
      p\<lparr>lastFailureTime := t, failureCount := failureCount p + 1, successCount := 0,
        state := StateUnhealthy, halfOpenCalls := 0\<rparr>"
    by (simp add: RecordFailure_def Let_def)
qed

theorem circuit_breaker_transitions_witness:
  "state (failures [1, 2, 3, 4, 5]
      (NewProvider ''a'' ''u'' 1 10 30 DefaultCircuitBreakerConfig)) = StateUnhealthy \<and>
   state (successes [200, 201]
      ((NewProvider ''a'' ''u'' 1 10 30 DefaultCircuitBreakerConfig)
         \<lparr>state := StateHalfOpen, failureCount := 5\<rparr>)) = StateHealthy \<and>
   RecordFailure 100
      ((NewProvider ''a'' ''u'' 1 10 30 DefaultCircuitBreakerConfig)
         \<lparr>state := StateHalfOpen, failureCount := 5\<rparr>) =
      (NewProvider ''a'' ''u'' 1 10 30 DefaultCircuitBreakerConfig)
         \<lparr>state := StateUnhealthy, failureCount := 6, lastFailureTime := 100\<rparr>"
  using circuit_breaker_transitions
      [of "NewProvider ''a'' ''u'' 1 10 30 DefaultCircuitBreakerConfig" "[1, 2, 3, 4, 5]"]
    circuit_breaker_transitions
      [of "(NewProvider ''a'' ''u'' 1 10 30 DefaultCircuitBreakerConfig)
             \<lparr>state := StateHalfOpen, failureCount := 5\<rparr>" "[200, 201]" 100]
  by (simp add: NewProvider_def DefaultCircuitBreakerConfig_def)

section \<open>The provider pool\<close>

lemma IsHealthy_MaxRange: "MaxRange (snd (IsHealthy now p)) = MaxRange p"
  by (simp add: IsHealthy_def)

lemma RecordSuccess_MaxRange: "MaxRange (RecordSuccess t p) = MaxRange p"
  by (simp add: RecordSuccess_def Let_def)

lemma RecordFailure_MaxRange: "MaxRange (RecordFailure t p) = MaxRange p"
  by (simp add: RecordFailure_def Let_def)

lemma GetHealthyProviders_Some:
  assumes "GetHealthyProviders L now pool = Some (healthy, pool1)"
  shows "map MaxRange (providers pool1) = map MaxRange (providers pool)"
    and "list_all (\<lambda>i. i < length (providers pool)) healthy"
    and "current pool1 = current pool"
  using assms
  by (auto simp: GetHealthyProviders_def Let_def IsHealthy_MaxRange comp_def list_all_iff
      split: option.splits)

lemma SelectProvider_Some:
  assumes "SelectProvider L now pool = Some ((sel, err), pool1)"
  shows "map MaxRange (providers pool1) = map MaxRange (providers pool)"
    and "err = None \<Longrightarrow> \<exists>i. sel = Some i \<and> i < length (providers pool)"
proof -
  from assms obtain m1 healthy pool0 m2 where
    g: "GetHealthyProviders L now (pool\<lparr>mu := m1\<rparr>) = Some (healthy, pool0)" and
    r: "(if length healthy > 0 then
           Some ((Some (healthy ! (current pool0 mod length healthy)), None),
                 pool0\<lparr>current := current pool0 + 1, mu := m2\<rparr>)
         else if length (providers pool0) > 0 then
           Some ((Some 0, Some (AllUnhealthyFallback (Name (providers pool0 ! 0)))),
                 pool0\<lparr>mu := m2\<rparr>)
         else Some ((None, Some NoProvidersAvailable), pool0\<lparr>mu := m2\<rparr>)) =
         Some ((sel, err), pool1)"
    by (auto simp: SelectProvider_def split: option.splits prod.splits)
  note h = GetHealthyProviders_Some [OF g]
  from r h(1) show "map MaxRange (providers pool1) = map MaxRange (providers pool)"
    by (auto split: if_splits)
  assume "err = None"
  with r have "healthy \<noteq> []" and s: "sel = Some (healthy ! (current pool0 mod length healthy))"
    by (auto split: if_splits)
  then have "healthy ! (current pool0 mod length healthy) \<in> set healthy"
    by simp
  with h(2) have "healthy ! (current pool0 mod length healthy) < length (providers pool)"
    by (simp add: list_all_iff)
  with s show "\<exists>i. sel = Some i \<and> i < length (providers pool)" by simp
qed

lemma FilterLogs_loop_called:
  assumes "FilterLogs_loop L env br maxAttempts n attempted lastErr called pool =
             Some (res, called', pool')"
    and "map MaxRange (providers pool) = mr"
    and "list_all (\<lambda>i. i < length mr \<and> br \<le> mr ! i) called"
  shows "map MaxRange (providers pool') = mr \<and>
         list_all (\<lambda>i. i < length mr \<and> br \<le> mr ! i) called' \<and>
         (\<forall>logs. res = Inr logs \<longrightarrow>
            called' \<noteq> [] \<and> (\<exists>a. answer (env a) (last called') = Inr logs))"
  using assms
proof (induction n arbitrary: attempted lastErr called pool)
  case 0
  then show ?case by auto
next
  case (Suc n)
  let ?a = "maxAttempts - Suc n"
  from Suc.prems(1) obtain sel err pool1 where
    sp: "SelectProvider L (clock (env ?a)) pool = Some ((sel, err), pool1)"
    by (auto simp: Let_def split: option.splits prod.splits)
  note s1 = SelectProvider_Some [OF sp]
  have mr1: "map MaxRange (providers pool1) = mr"
    using s1(1) Suc.prems(2) by simp
  show ?case
  proof (cases err)
    case (Some e)
    with Suc.prems sp mr1 show ?thesis by (auto simp: Let_def)
  next
    case None
    then obtain i where i: "sel = Some i" "i < length (providers pool)"
      using s1(2) by auto
    have len: "length mr = length (providers pool)" "length (providers pool1) = length mr"
      using Suc.prems(2) mr1 by (auto dest: arg_cong [where f = length])
    have mri: "MaxRange (providers pool1 ! i) = mr ! i"
      using mr1 i len by (metis nth_map)
    let ?p = "providers pool1 ! i"
    show ?thesis
    proof (cases "br > MaxRange ?p")
      case True
      with Suc.prems(1) sp None i have
        "FilterLogs_loop L env br maxAttempts n (Name ?p # attempted)
           (Some (RangeExceeded (Name ?p) (MaxRange ?p) br)) called pool1 =
         Some (res, called', pool')"
        by (simp add: Let_def)
      from Suc.IH [OF this mr1 Suc.prems(3)] show ?thesis by simp
    next
      case small: False
      show ?thesis
      proof (cases "Name ?p \<in> set attempted \<and> ?a < length (providers pool1)")
        case True
        with Suc.prems(1) sp None i small have
          "FilterLogs_loop L env br maxAttempts n attempted lastErr called pool1 =
           Some (res, called', pool')"
          by (simp add: Let_def)
        from Suc.IH [OF this mr1 Suc.prems(3)] show ?thesis by simp
      next
        case fresh: False
        have ok: "list_all (\<lambda>i. i < length mr \<and> br \<le> mr ! i) (called @ [i])"
          using Suc.prems(3) small mri i len by simp
        show ?thesis
        proof (cases "answer (env ?a) i")
          case (Inr logs)
          with Suc.prems(1) sp None i small fresh have
            "res = Inr logs" "called' = called @ [i]"
            "pool' = pool1\<lparr>providers := (providers pool1)
               [i := RecordSuccess (clock_after (env ?a)) ?p]\<rparr>"
            by (auto simp: Let_def)
          moreover have "map MaxRange ((providers pool1)
               [i := RecordSuccess (clock_after (env ?a)) ?p]) = mr"
            using mr1 mri by (simp add: map_update RecordSuccess_MaxRange list_update_same_conv)
          ultimately show ?thesis using ok Inr by auto
        next
          case (Inl e)
          let ?pool2 = "pool1\<lparr>providers := (providers pool1)
               [i := RecordFailure (clock_after (env ?a)) ?p]\<rparr>"
          have mr2: "map MaxRange (providers ?pool2) = mr"
            using mr1 mri by (simp add: map_update RecordFailure_MaxRange list_update_same_conv)
          show ?thesis
          proof (cases "ctx_done (env ?a)")
            case True
            with Suc.prems(1) sp None i small fresh Inl have
              "res = Inl ContextCancelled" "called' = called @ [i]" "pool' = ?pool2"
              by (auto simp: Let_def)
            then show ?thesis using ok mr2 by auto
          next
            case False
            with Suc.prems(1) sp None i small fresh Inl have
              "FilterLogs_loop L env br maxAttempts n (Name ?p # attempted)
                 (Some (ProviderFailed (Name ?p) e)) (called @ [i]) ?pool2 =
               Some (res, called', pool')"
              by (simp add: Let_def)
            from Suc.IH [OF this mr2 ok] show ?thesis by simp
          qed
        qed
      qed
    qed
  qed
qed

text \<open>
  The range check of \<open>FilterLogs\<close>, whatever the lock does and whatever the providers
  answer: when \<open>FilterLogs\<close> returns, every provider whose RPC it called has a
  \<open>MaxRange\<close> of at least the span \<open>ToBlock - FromBlock + 1\<close> (in \<open>uint64\<close>
  arithmetic, as the code computes it), and logs it returns are the answer of the
  provider called last.
\<close>

lemma FilterLogs_calls_within_MaxRange:
  assumes "FilterLogs L env query pool = Some (res, called, pool')"
  shows "list_all (\<lambda>i. i < length (providers pool) \<and>
                      blockRange query \<le> MaxRange (providers pool ! i)) called \<and>
         (\<forall>i < length (providers pool).
            MaxRange (providers pool ! i) < blockRange query \<longrightarrow> i \<notin> set called) \<and>
         (\<forall>logs. res = Inr logs \<longrightarrow>
            called \<noteq> [] \<and>
            blockRange query \<le> MaxRange (providers pool ! last called) \<and>
            (\<exists>a. answer (env a) (last called) = Inr logs))"
proof -
  let ?mr = "map MaxRange (providers pool)"
  let ?ok = "\<lambda>i. i < length ?mr \<and> blockRange query \<le> ?mr ! i"
  have "FilterLogs_loop L env (blockRange query) (length (providers pool) * 2)
          (length (providers pool) * 2) [] None [] pool = Some (res, called, pool')"
    using assms by (simp add: FilterLogs_def)
  from FilterLogs_loop_called [OF this, of ?mr]
  have all: "list_all ?ok called"
    and srv: "\<forall>logs. res = Inr logs \<longrightarrow>
        called \<noteq> [] \<and> (\<exists>a. answer (env a) (last called) = Inr logs)"
    by simp_all
  have ok: "i < length (providers pool) \<and> blockRange query \<le> MaxRange (providers pool ! i)"
    if "i \<in> set called" for i
    using all that by (auto simp: list_all_iff)
  have "list_all (\<lambda>i. i < length (providers pool) \<and>
      blockRange query \<le> MaxRange (providers pool ! i)) called"
    using ok by (simp add: list_all_iff)
  moreover have "\<forall>i < length (providers pool).
      MaxRange (providers pool ! i) < blockRange query \<longrightarrow> i \<notin> set called"
    using ok by (auto simp: not_le [symmetric])
  moreover have "\<forall>logs. res = Inr logs \<longrightarrow>
      called \<noteq> [] \<and>
      blockRange query \<le> MaxRange (providers pool ! last called) \<and>
      (\<exists>a. answer (env a) (last called) = Inr logs)"
    using srv ok by (metis last_in_set)
  ultimately show ?thesis by blast
qed

text \<open>
  Under Go's \<open>sync.RWMutex\<close> the read lock that \<open>GetHealthyProviders\<close> takes inside
  \<open>SelectProvider\<close> waits for the write lock \<open>SelectProvider\<close> itself holds:
  \<open>SelectProvider\<close> never returns, and neither does an operation of a pool that has a
  provider.
\<close>

lemma SelectProvider_go_RWMutex: "SelectProvider go_RWMutex now pool = None"
  by (simp add: SelectProvider_def GetHealthyProviders_def go_RWMutex_def
      split: mutex_state.splits)

lemma pool_operations_go_RWMutex:
  assumes "providers pool \<noteq> []"
  shows "FilterLogs go_RWMutex env query pool = None"
    and "BlockByNumber go_RWMutex env pool = None"
    and "HeaderByNumber go_RWMutex env pool = None"
proof -
  from assms obtain n where n: "length (providers pool) * 2 = Suc n"
    by (cases "providers pool") auto
  show "FilterLogs go_RWMutex env query pool = None"
    by (simp add: FilterLogs_def n SelectProvider_go_RWMutex)
  show "BlockByNumber go_RWMutex env pool = None"
    by (simp add: BlockByNumber_def n SelectProvider_go_RWMutex)
  show "HeaderByNumber go_RWMutex env pool = None"
    by (simp add: HeaderByNumber_def n SelectProvider_go_RWMutex)
qed


text \<open>
  With a mutex that lets \<open>SelectProvider\<close> through, and no provider healthy at the time
  of the first selection, \<open>SelectProvider\<close> returns the first provider together with
  an error, and each operation returns on that error before it calls any provider.
\<close>

lemma SelectProvider_all_unhealthy:
  assumes "providers pool \<noteq> []"
    and "list_all (\<lambda>p. state p = StateUnhealthy \<and> now - lastFailureTime p \<le> timeout p)
           (providers pool)"
  shows "SelectProvider no_wait now pool =
           Some ((Some 0, Some (AllUnhealthyFallback (Name (providers pool ! 0)))), pool)"
proof -
  obtain ps c where pool: "pool = \<lparr>providers = ps, mu = (), current = c\<rparr>"
    by (cases pool) simp
  have same: "map (IsHealthy now) ps = map (\<lambda>p. (False, p)) ps"
    using assms(2) by (auto simp: pool list_all_iff IsHealthy_def)
  have none: "filter (\<lambda>i. fst (map (\<lambda>p. (False, p)) ps ! i)) [0..<length ps] = []"
    by (auto simp: filter_empty_conv)
  have "GetHealthyProviders no_wait now pool = Some ([], pool)"
    by (simp add: pool GetHealthyProviders_def no_wait_def same none comp_def)
  then show ?thesis
    using assms(1) by (simp add: pool SelectProvider_def no_wait_def)
qed

lemma pool_operations_all_unhealthy:
  assumes "providers pool \<noteq> []"
    and "list_all (\<lambda>p. state p = StateUnhealthy \<and> clock (env 0) - lastFailureTime p \<le> timeout p)
           (providers pool)"
  shows "FilterLogs no_wait env query pool =
           Some (Inl (NoHealthyProviders (AllUnhealthyFallback (Name (providers pool ! 0)))),
                 [], pool)"
    and "BlockByNumber no_wait env pool =
           Some (Inl (NoHealthyProviders (AllUnhealthyFallback (Name (providers pool ! 0)))),
                 [], pool)"
    and "HeaderByNumber no_wait env pool =
           Some (Inl (NoHealthyProviders (AllUnhealthyFallback (Name (providers pool ! 0)))),
                 [], pool)"
proof -
  from assms(1) obtain n where n: "length (providers pool) * 2 = Suc n"
    by (cases "providers pool") auto
  note sel = SelectProvider_all_unhealthy [OF assms]
  show "FilterLogs no_wait env query pool =
      Some (Inl (NoHealthyProviders (AllUnhealthyFallback (Name (providers pool ! 0)))), [], pool)"
    by (simp add: FilterLogs_def n sel)
  show "BlockByNumber no_wait env pool =
      Some (Inl (NoHealthyProviders (AllUnhealthyFallback (Name (providers pool ! 0)))), [], pool)"
    by (simp add: BlockByNumber_def n sel)
  show "HeaderByNumber no_wait env pool =
      Some (Inl (NoHealthyProviders (AllUnhealthyFallback (Name (providers pool ! 0)))), [], pool)"
    by (simp add: HeaderByNumber_def n sel)
qed

text \<open>
  C5, at a pool whose only provider is unhealthy and failed 100 ns ago, with a provider
  that would answer: \<open>FilterLogs\<close>, \<open>BlockByNumber\<close> and \<open>HeaderByNumber\<close> return
  the error and call no provider, the fallback \<open>SelectProvider\<close> hands them included;
  and under Go's mutex the three operations do not return at all.
\<close>

theorem last_resort_provider_not_called:
  "FilterLogs no_wait
     (\<lambda>a. \<lparr>clock = 1000, answer = (\<lambda>i. Inr ''logs''), clock_after = 1001, ctx_done = False\<rparr>)
     \<lparr>FromBlock = 10, ToBlock = 12\<rparr>
     \<lparr>providers = [(NewProvider ''A'' ''ua'' 10 5 30 DefaultCircuitBreakerConfig)
         \<lparr>state := StateUnhealthy, failureCount := 5, lastFailureTime := 900\<rparr>],
      mu = (), current = 0\<rparr> =
   Some (Inl (NoHealthyProviders (AllUnhealthyFallback ''A'')), [],
     \<lparr>providers = [(NewProvider ''A'' ''ua'' 10 5 30 DefaultCircuitBreakerConfig)
         \<lparr>state := StateUnhealthy, failureCount := 5, lastFailureTime := 900\<rparr>],
      mu = (), current = 0\<rparr>) \<and>
   BlockByNumber no_wait
     (\<lambda>a. \<lparr>clock = 1000, answer = (\<lambda>i. Inr ''block''), clock_after = 1001, ctx_done = False\<rparr>)
     \<lparr>providers = [(NewProvider ''A'' ''ua'' 10 5 30 DefaultCircuitBreakerConfig)
         \<lparr>state := StateUnhealthy, failureCount := 5, lastFailureTime := 900\<rparr>],
      mu = (), current = 0\<rparr> =
   Some (Inl (NoHealthyProviders (AllUnhealthyFallback ''A'')), [],
     \<lparr>providers = [(NewProvider ''A'' ''ua'' 10 5 30 DefaultCircuitBreakerConfig)
         \<lparr>state := StateUnhealthy, failureCount := 5, lastFailureTime := 900\<rparr>],
      mu = (), current = 0\<rparr>) \<and>
   HeaderByNumber no_wait
     (\<lambda>a. \<lparr>clock = 1000, answer = (\<lambda>i. Inr ''header''), clock_after = 1001, ctx_done = False\<rparr>)
     \<lparr>providers = [(NewProvider ''A'' ''ua'' 10 5 30 DefaultCircuitBreakerConfig)
         \<lparr>state := StateUnhealthy, failureCount := 5, lastFailureTime := 900\<rparr>],
      mu = (), current = 0\<rparr> =
   Some (Inl (NoHealthyProviders (AllUnhealthyFallback ''A'')), [],
     \<lparr>providers = [(NewProvider ''A'' ''ua'' 10 5 30 DefaultCircuitBreakerConfig)
         \<lparr>state := StateUnhealthy, failureCount := 5, lastFailureTime := 900\<rparr>],
      mu = (), current = 0\<rparr>) \<and>
   FilterLogs go_RWMutex
     (\<lambda>a. \<lparr>clock = 1000, answer = (\<lambda>i. Inr ''logs''), clock_after = 1001, ctx_done = False\<rparr>)
     \<lparr>FromBlock = 10, ToBlock = 12\<rparr>
     \<lparr>providers = [(NewProvider ''A'' ''ua'' 10 5 30 DefaultCircuitBreakerConfig)
         \<lparr>state := StateUnhealthy, failureCount := 5, lastFailureTime := 900\<rparr>],
      mu = Free, current = 0\<rparr> = None"
  by code_simp

section \<open>The adaptive scanner\<close>

lemma success_bounds:
  assumes "in_bounds s" "unat (batchMaxSize s) < 2 ^ 63"
  shows "in_bounds (adjustBatchSizeOnSuccess s)"
proof -
  have "unat (currentBatchSize s) < 2 ^ 63"
    using assms by (simp add: in_bounds_def word_le_nat_alt)
  then have "unat (currentBatchSize s * 2) = unat (currentBatchSize s) * 2"
    by (simp add: unat_word_ariths)
  then have "currentBatchSize s \<le> currentBatchSize s * 2"
    by (simp add: word_le_nat_alt)
  then show ?thesis
    using assms(1) by (auto simp: adjustBatchSizeOnSuccess_def in_bounds_def Let_def)
qed

lemma failure_bounds:
  assumes "in_bounds s" "adjustBatchSizeOnFailure s = Some s'"
  shows "in_bounds s'"
proof -
  let ?d = "word_of_int (batchFailureBackoff s) :: 64 word"
  have "currentBatchSize s div ?d \<le> currentBatchSize s"
    by (simp add: word_le_nat_alt unat_div div_le_dividend)
  then show ?thesis
    using assms by (auto simp: adjustBatchSizeOnFailure_def in_bounds_def Let_def split: if_splits)
qed

lemma params_success: "batchMinSize (adjustBatchSizeOnSuccess s) = batchMinSize s \<and>
  batchMaxSize (adjustBatchSizeOnSuccess s) = batchMaxSize s"
  by (simp add: adjustBatchSizeOnSuccess_def Let_def)

lemma params_failure: "adjustBatchSizeOnFailure s = Some s' \<Longrightarrow> batchMinSize s' = batchMinSize s \<and>
  batchMaxSize s' = batchMaxSize s"
  by (auto simp: adjustBatchSizeOnFailure_def Let_def split: if_splits)

lemma processBlocks_state:
  assumes "processBlocks env s fromBlock = Some (r, s')"
  shows "s' = s \<or> s' = adjustBatchSizeOnSuccess s \<or> adjustBatchSizeOnFailure s = Some s'"
proof (cases "latest env")
  case (Inl e)
  with assms show ?thesis by (simp add: processBlocks_def)
next
  case (Inr latestBlock)
  show ?thesis
  proof (cases "fromBlock > latestBlock")
    case True
    with assms Inr show ?thesis by (simp add: processBlocks_def)
  next
    case False
    define toBlock where "toBlock =
      (if fromBlock + batchSize s - 1 > latestBlock then latestBlock
       else fromBlock + batchSize s - 1)"
    show ?thesis
    proof (cases "fetched env fromBlock toBlock")
      case (Inl e)
      with assms Inr False show ?thesis
        by (auto simp: processBlocks_def Let_def toBlock_def split: if_splits)
    next
      case fetched: (Inr transfers)
      show ?thesis
      proof (cases "if length transfers > 0 then inserted env transfers else None")
        case (Some e)
        with assms Inr False fetched show ?thesis
          by (auto simp: processBlocks_def Let_def toBlock_def split: if_splits)
      next
        case None
        with assms Inr False fetched show ?thesis
          by (cases "cursor_set env toBlock")
             (auto simp: processBlocks_def Let_def toBlock_def split: if_splits)
      qed
    qed
  qed
qed

lemma processBlocks_bounds:
  assumes "in_bounds s" "unat (batchMaxSize s) < 2 ^ 63"
    and "processBlocks env s fromBlock = Some (r, s')"
  shows "in_bounds s' \<and> batchMinSize s' = batchMinSize s \<and> batchMaxSize s' = batchMaxSize s"
  using processBlocks_state [OF assms(3)] success_bounds [OF assms(1,2)]
    failure_bounds [OF assms(1)] params_success [of s] params_failure [of s s'] assms(1)
  by blast

lemma ticks_bounds:
  assumes "ticks envs s b = Some (s', b')" "in_bounds s" "unat (batchMaxSize s) < 2 ^ 63"
  shows "in_bounds s' \<and> batchMinSize s' = batchMinSize s \<and> batchMaxSize s' = batchMaxSize s"
  using assms
proof (induction envs arbitrary: s b)
  case Nil
  then show ?case by simp
next
  case (Cons env envs)
  from Cons.prems(1) obtain nb err s1 where
    p: "processBlocks env s b = Some ((nb, err), s1)"
    by (auto split: option.splits)
  from processBlocks_bounds [OF Cons.prems(2,3) p]
  have s1: "in_bounds s1" "batchMinSize s1 = batchMinSize s" "batchMaxSize s1 = batchMaxSize s"
    by simp_all
  from Cons.prems(1) p obtain b1 where "ticks envs s1 b1 = Some (s', b')"
    by (auto split: option.splits)
  from Cons.IH [OF this s1(1)] s1 Cons.prems(3) show ?case by simp
qed


lemma backoff_failure: "adjustBatchSizeOnFailure s = Some s' \<Longrightarrow>
    batchFailureBackoff s' = batchFailureBackoff s"
  by (auto simp: adjustBatchSizeOnFailure_def Let_def split: if_splits)

lemma backoff_success: "batchFailureBackoff (adjustBatchSizeOnSuccess s) = batchFailureBackoff s"
  by (simp add: adjustBatchSizeOnSuccess_def Let_def)

lemma failure_returns:
  "(word_of_int (batchFailureBackoff s) :: 64 word) \<noteq> 0 \<Longrightarrow>
   \<exists>s'. adjustBatchSizeOnFailure s = Some s'"
  by (simp add: adjustBatchSizeOnFailure_def Let_def)

lemma processBlocks_returns:
  assumes "(word_of_int (batchFailureBackoff s) :: 64 word) \<noteq> 0"
  shows "\<exists>r s'. processBlocks env s fromBlock = Some (r, s') \<and>
           batchFailureBackoff s' = batchFailureBackoff s"
proof -
  from failure_returns [OF assms] obtain sf where sf: "adjustBatchSizeOnFailure s = Some sf"
    by blast
  note b = backoff_failure [OF sf] backoff_success [of s]
  show ?thesis
    by (simp add: processBlocks_def Let_def sf b split: sum.splits option.splits)
qed

lemma ticks_returns:
  "(word_of_int (batchFailureBackoff s) :: 64 word) \<noteq> 0 \<Longrightarrow>
   \<exists>r. ticks envs s b = Some r"
proof (induction envs arbitrary: s b)
  case Nil
  then show ?case by simp
next
  case (Cons env envs)
  from processBlocks_returns [OF Cons.prems, of env b] obtain nb err s1 where
    p: "processBlocks env s b = Some ((nb, err), s1)"
      "batchFailureBackoff s1 = batchFailureBackoff s"
    by auto
  then have "(word_of_int (batchFailureBackoff s1) :: 64 word) \<noteq> 0"
    using Cons.prems by simp
  from Cons.IH [OF this] show ?case
    by (simp add: p split: option.splits)
qed

lemma first_tick_range:
  "processBlocks
     \<lparr>latest = Inr 1000,
      fetched = (\<lambda>f t. if f = 1 \<and> t = 100 then Inr [] else Inl ''another range''),
      inserted = (\<lambda>ts. None), cursor_set = (\<lambda>b. None)\<rparr>
     (NewIngestionService 1 100 False True 1 64 3 2) 1 =
   Some ((101, None),
         (NewIngestionService 1 100 False True 1 64 3 2)\<lparr>successCount_svc := 1\<rparr>)"
  by code_simp

text \<open>
  C6, the claim as it is written, at \<open>blockBatchSize = 100\<close>, \<open>batchMinSize = 1\<close>
  and \<open>batchMaxSize = 64\<close> with adaptive batching on: the service starts with a
  current batch size of 100, not clamped, and its first tick, from block 1 with the tip
  at 1000, fetches the 100 blocks 1 to 100.
\<close>

theorem initial_batch_size_not_clamped_counterexample:
  "currentBatchSize (NewIngestionService 1 100 False True 1 64 3 2) = 100 \<and>
   batchSize (NewIngestionService 1 100 False True 1 64 3 2) = 100 \<and>
   \<not> batchSize (NewIngestionService 1 100 False True 1 64 3 2)
       \<le> batchMaxSize (NewIngestionService 1 100 False True 1 64 3 2) \<and>
   processBlocks
     \<lparr>latest = Inr 1000,
      fetched = (\<lambda>f t. if f = 1 \<and> t = 100 then Inr [] else Inl ''another range''),
      inserted = (\<lambda>ts. None), cursor_set = (\<lambda>b. None)\<rparr>
     (NewIngestionService 1 100 False True 1 64 3 2) 1 =
   Some ((101, None),
         (NewIngestionService 1 100 False True 1 64 3 2)\<lparr>successCount_svc := 1\<rparr>)"
  using first_tick_range by (simp add: NewIngestionService_def batchSize_def)

text \<open>
  C6, amended. The initial batch size is the configured \<open>blockBatchSize\<close> (10 when it
  is zero), not clamped. When it lies in \<open>[batchMinSize, batchMaxSize]\<close> and
  \<open>batchMaxSize\<close> is below \<open>2^63\<close>, the current batch size lies in that interval
  after any sequence of ticks, the bounds never change, and a tick uses the current batch
  size as it is unless it is zero.
\<close>

theorem batch_size_stays_in_bounds:
  assumes "batchMinSize s \<le> currentBatchSize s" and "currentBatchSize s \<le> batchMaxSize s"
    and "unat (batchMaxSize s) < 2 ^ 63"
    and "ticks envs s b = Some (s', b')"
  shows "batchMinSize s' = batchMinSize s \<and> batchMaxSize s' = batchMaxSize s \<and>
         batchMinSize s \<le> currentBatchSize s' \<and> currentBatchSize s' \<le> batchMaxSize s \<and>
         (currentBatchSize s' \<noteq> 0 \<longrightarrow> batchSize s' = currentBatchSize s')"
proof -
  have "in_bounds s"
    using assms(1,2) by (simp add: in_bounds_def)
  from ticks_bounds [OF assms(4) this assms(3)] show ?thesis
    by (auto simp: in_bounds_def batchSize_def)
qed

lemma four_ticks:
  "ticks
     [\<lparr>latest = Inr 1000, fetched = (\<lambda>f t. Inr [CHR ''x'']), inserted = (\<lambda>ts. None),
        cursor_set = (\<lambda>b. None)\<rparr>,
      \<lparr>latest = Inr 1000, fetched = (\<lambda>f t. Inr []), inserted = (\<lambda>ts. None),
        cursor_set = (\<lambda>b. None)\<rparr>,
      \<lparr>latest = Inr 1000, fetched = (\<lambda>f t. Inr []), inserted = (\<lambda>ts. None),
        cursor_set = (\<lambda>b. None)\<rparr>,
      \<lparr>latest = Inr 1000, fetched = (\<lambda>f t. Inl ''rpc''), inserted = (\<lambda>ts. None),
        cursor_set = (\<lambda>b. None)\<rparr>]
     (NewIngestionService 1 40 False True 1 64 3 2) 1 =
   Some ((NewIngestionService 1 40 False True 1 64 3 2)\<lparr>currentBatchSize := 32\<rparr>, 121)"
  by code_simp

theorem batch_size_stays_in_bounds_witness:
  "batchMinSize (NewIngestionService 1 40 False True 1 64 3 2)
     \<le> currentBatchSize (NewIngestionService 1 40 False True 1 64 3 2) \<and>
   currentBatchSize (NewIngestionService 1 40 False True 1 64 3 2)
     \<le> batchMaxSize (NewIngestionService 1 40 False True 1 64 3 2) \<and>
   batchMinSize (NewIngestionService 1 40 False True 1 64 3 2)
     \<le> currentBatchSize ((NewIngestionService 1 40 False True 1 64 3 2)\<lparr>currentBatchSize := 32\<rparr>) \<and>
   currentBatchSize ((NewIngestionService 1 40 False True 1 64 3 2)\<lparr>currentBatchSize := 32\<rparr>)
     \<le> batchMaxSize (NewIngestionService 1 40 False True 1 64 3 2)"
proof -
  have a: "batchMinSize (NewIngestionService 1 40 False True 1 64 3 2)
     \<le> currentBatchSize (NewIngestionService 1 40 False True 1 64 3 2)"
    and b: "currentBatchSize (NewIngestionService 1 40 False True 1 64 3 2)
     \<le> batchMaxSize (NewIngestionService 1 40 False True 1 64 3 2)"
    and c: "unat (batchMaxSize (NewIngestionService 1 40 False True 1 64 3 2)) < 2 ^ 63"
    by (simp_all add: NewIngestionService_def)
  from batch_size_stays_in_bounds [OF a b c four_ticks] a b show ?thesis
    by blast
qed






section \<open>Decimal strings\<close>

lemma digit_val_digit_char: "d < 10 \<Longrightarrow> digit_val (digit_char d) = Some d"
proof -
  assume "d < 10"
  then have "d \<in> {0, 1, 2, 3, 4, 5, 6, 7, 8, 9}"
    by auto
  then show ?thesis
    by (auto simp: digit_val_def digit_char_def)
qed

lemma digits_val_append:
  "digits_val acc (xs @ ys) =
     (case digits_val acc xs of None \<Rightarrow> None | Some a \<Rightarrow> digits_val a ys)"
  by (induction xs arbitrary: acc) (auto split: option.splits)

lemma digits_val_decimal: "digits_val acc (decimal n) = Some (acc * 10 ^ length (decimal n) + n)"
proof (induction n arbitrary: acc rule: decimal.induct)
  case (1 n)
  show ?case
  proof (cases "n < 10")
    case True
    then show ?thesis
      by (subst (1 2) decimal.simps) (simp add: digit_val_digit_char)
  next
    case False
    have m: "n mod 10 < 10" by simp
    from False "1.IH" [of acc] show ?thesis
      by (subst (1 2) decimal.simps)
         (simp add: digits_val_append digit_val_digit_char [OF m] algebra_simps)
  qed
qed

lemma decimal_nonempty: "decimal n \<noteq> []"
  by (subst decimal.simps) simp

lemma ParseUint_FormatUint: "ParseUint (FormatUint w) = Some w"
proof -
  have "digits_val 0 (decimal (unat w)) = Some (unat w)"
    using digits_val_decimal [of 0 "unat w"] by simp
  moreover have "unat w < 2 ^ 64"
    using unsigned_less [of w] by simp
  ultimately show ?thesis
    by (simp add: ParseUint_def FormatUint_def decimal_nonempty)
qed


section \<open>The cursor: repository and cache\<close>

lemma foldr_max_ge: "(x :: 64 word) \<in> set xs \<Longrightarrow> x \<le> foldr max xs 0"
  by (induction xs) (auto simp: max_def)

lemma Set_processed:
  "SetLastProcessedBlock env r n = (None, r') \<Longrightarrow> n \<in> set (processedColl r')"
  by (auto simp: SetLastProcessedBlock_def Let_def split: if_splits option.splits)

lemma Get_from_mongo:
  assumes "n \<in> set (processedColl r)"
    and "cache r = None \<or> \<not> enabled (the (cache r)) \<or> \<not> redis_up env"
    and "GetLastProcessedBlock env r = (Inr m, r')"
  shows "n \<le> m"
proof -
  have miss: "(case cache r of None \<Rightarrow> None
      | Some c \<Rightarrow> (case GetLastProcessedBlock_cache (redis_up env) c of
                   Inr blockNum \<Rightarrow> Some blockNum | Inl e \<Rightarrow> None)) = None"
    using assms(2) by (auto simp: GetLastProcessedBlock_cache_def split: option.splits)
  have ne: "processedColl r \<noteq> []"
    using assms(1) by auto
  have "m = foldr max (processedColl r) 0"
    using assms(3) unfolding GetLastProcessedBlock_def miss
    by (auto simp: ne Let_def split: if_splits option.splits)
  then show ?thesis
    using foldr_max_ge [OF assms(1)] by simp
qed

lemma Get_from_cache_in_step:
  assumes "cache r = Some c" "enabled c" "redis_up env" "last_block c = Some (FormatUint n)"
  shows "GetLastProcessedBlock env r = (Inr n, r)"
  using assms
  by (simp add: GetLastProcessedBlock_def GetLastProcessedBlock_cache_def ParseUint_FormatUint)

lemma cursor_read_after_write_in_step:
  assumes set: "SetLastProcessedBlock env r n = (None, r1)"
    and sync: "cache r = None \<or> \<not> enabled (the (cache r)) \<or> redis_up env"
    and get: "GetLastProcessedBlock env' r1 = (Inr m, r2)"
  shows "n \<le> m"
proof -
  have proc: "n \<in> set (processedColl r1)"
    using set by (rule Set_processed)
  show ?thesis
  proof (cases "cache r")
    case None
    then have "cache r1 = None"
      using set by (auto simp: SetLastProcessedBlock_def Let_def split: if_splits)
    with proc get show ?thesis
      by (intro Get_from_mongo [of n r1 env' m r2]) auto
  next
    case (Some c)
    show ?thesis
    proof (cases "enabled c \<and> redis_up env")
      case True
      then have c1: "cache r1 = Some (c\<lparr>last_block := Some (FormatUint n)\<rparr>)"
        using set Some
        by (auto simp: SetLastProcessedBlock_def SetLastProcessedBlock_cache_def Let_def
            split: if_splits)
      show ?thesis
      proof (cases "redis_up env'")
        case up: True
        have "GetLastProcessedBlock env' r1 = (Inr n, r1)"
          using c1 True up by (intro Get_from_cache_in_step) auto
        with get show ?thesis by simp
      next
        case False
        with proc get show ?thesis
          by (intro Get_from_mongo [of n r1 env' m r2]) auto
      qed
    next
      case False
      with sync Some have off: "\<not> enabled c" by auto
      then have "cache r1 = Some c"
        using set Some
        by (auto simp: SetLastProcessedBlock_def SetLastProcessedBlock_cache_def Let_def
            split: if_splits)
      with off proc get show ?thesis
        by (intro Get_from_mongo [of n r1 env' m r2]) auto
    qed
  qed
qed

text \<open>
  C1, at a repository whose cache is enabled and holds no \<open>ethereum:last_block\<close>:
  \<open>SetLastProcessedBlock 10\<close> succeeds while Redis does not answer the \<open>SET\<close> (the
  error is dropped), and the next \<open>GetLastProcessedBlock\<close>, with Redis back, returns
  0 without an error: the absent key reads as \<open>(0, nil)\<close>, which the repository takes
  for a hit. With the stale value 5 under the key it returns 5. Both are below 10.
\<close>

theorem cursor_read_below_last_write:
  "fst (SetLastProcessedBlock \<lparr>mongo_up = True, redis_up = False, redis_up_later = True\<rparr>
          \<lparr>transfersColl = ([] :: nat list), processedColl = [],
            cache = Some \<lparr>enabled = True, last_block = None\<rparr>\<rparr> 10) = None \<and>
   fst (GetLastProcessedBlock \<lparr>mongo_up = True, redis_up = True, redis_up_later = True\<rparr>
          (snd (SetLastProcessedBlock \<lparr>mongo_up = True, redis_up = False, redis_up_later = True\<rparr>
            \<lparr>transfersColl = ([] :: nat list), processedColl = [],
              cache = Some \<lparr>enabled = True, last_block = None\<rparr>\<rparr> 10))) = Inr 0 \<and>
   fst (GetLastProcessedBlock \<lparr>mongo_up = True, redis_up = True, redis_up_later = True\<rparr>
          (snd (SetLastProcessedBlock \<lparr>mongo_up = True, redis_up = False, redis_up_later = True\<rparr>
            \<lparr>transfersColl = ([] :: nat list), processedColl = [5],
              cache = Some \<lparr>enabled = True, last_block = Some ''5''\<rparr>\<rparr> 10))) = Inr 5"
  by (simp add: SetLastProcessedBlock_def GetLastProcessedBlock_def
      SetLastProcessedBlock_cache_def GetLastProcessedBlock_cache_def ParseUint_def
      digit_val_def Let_def)


section \<open>The bulk write\<close>

lemma insert_unordered_keeps:
  "insert_unordered key rejected i coll docs = (coll', errs) \<Longrightarrow>
   \<exists>new. coll' = coll @ new \<and> set new \<subseteq> set docs"
proof (induction docs arbitrary: i coll coll' errs)
  case Nil
  then show ?case by simp
next
  case (Cons doc docs)
  show ?case
  proof (cases "rejected doc = None \<and> key doc \<notin> key ` set coll")
    case True
    with Cons.prems have "insert_unordered key rejected (Suc i) (coll @ [doc]) docs = (coll', errs)"
      by auto
    from Cons.IH [OF this] obtain new where "coll' = (coll @ [doc]) @ new" "set new \<subseteq> set docs"
      by blast
    then have "coll' = coll @ (doc # new) \<and> set (doc # new) \<subseteq> set (doc # docs)"
      by auto
    then show ?thesis by blast
  next
    case False
    with Cons.prems obtain errs' where
      "insert_unordered key rejected (Suc i) coll docs = (coll', errs')"
      by (auto split: option.splits prod.splits if_splits)
    from Cons.IH [OF this] show ?thesis by auto
  qed
qed

lemma insert_unordered_all_present:
  "\<forall>d \<in> set docs. rejected d = None \<and> key d \<in> key ` set coll \<Longrightarrow>
   \<exists>errs. insert_unordered key rejected i coll docs = (coll, errs) \<and>
          length errs = length docs \<and> list_all (\<lambda>we. Code we = 11000) errs"
proof (induction docs arbitrary: i)
  case Nil
  then show ?case by simp
next
  case (Cons doc docs)
  then obtain errs where "insert_unordered key rejected (Suc i) coll docs = (coll, errs)"
    "length errs = length docs" "list_all (\<lambda>we. Code we = 11000) errs"
    by fastforce
  with Cons.prems show ?case by auto
qed

lemma insert_unordered_inserts:
  "insert_unordered key rejected i coll docs = (coll', errs) \<Longrightarrow>
   d \<in> set docs \<Longrightarrow> rejected d = None \<Longrightarrow> key d \<in> key ` set coll'"
proof (induction docs arbitrary: i coll coll' errs)
  case Nil
  then show ?case by simp
next
  case (Cons doc docs)
  show ?case
  proof (cases "rejected doc = None \<and> key doc \<notin> key ` set coll")
    case True
    with Cons.prems(1) have
      r: "insert_unordered key rejected (Suc i) (coll @ [doc]) docs = (coll', errs)"
      by auto
    show ?thesis
    proof (cases "d = doc")
      case True
      from insert_unordered_keeps [OF r] obtain new where "coll' = (coll @ [doc]) @ new"
        by blast
      with True show ?thesis by auto
    next
      case False
      with Cons.prems(2) have "d \<in> set docs" by simp
      from Cons.IH [OF r this Cons.prems(3)] show ?thesis .
    qed
  next
    case False
    with Cons.prems(1) obtain errs' where
      r: "insert_unordered key rejected (Suc i) coll docs = (coll', errs')"
      by (auto split: option.splits prod.splits if_splits)
    show ?thesis
    proof (cases "d = doc")
      case True
      with False Cons.prems(3) have "key d \<in> key ` set coll" by auto
      moreover from insert_unordered_keeps [OF r] obtain new where "coll' = coll @ new"
        by blast
      ultimately show ?thesis by auto
    next
      case False
      with Cons.prems(2) have "d \<in> set docs" by simp
      from Cons.IH [OF r this Cons.prems(3)] show ?thesis .
    qed
  qed
qed


lemma insert_unordered_codes:
  "insert_unordered key (\<lambda>d. None) i coll docs = (coll', errs) \<Longrightarrow>
   list_all (\<lambda>we. Code we = 11000) errs"
proof (induction docs arbitrary: i coll coll' errs)
  case Nil
  then show ?case by simp
next
  case (Cons doc docs)
  show ?case
  proof (cases "key doc \<in> key ` set coll")
    case True
    with Cons.prems obtain errs' where
      "insert_unordered key (\<lambda>d. None) (Suc i) coll docs = (coll', errs')"
      "errs = \<lparr>Index = i, Code = 11000\<rparr> # errs'"
      by (auto split: prod.splits)
    with Cons.IH [of "Suc i" coll coll' errs'] show ?thesis by simp
  next
    case False
    with Cons.prems Cons.IH [of "Suc i" "coll @ [doc]" coll' errs] show ?thesis by simp
  qed
qed

lemma all_duplicates_is_duplicate:
  "errs \<noteq> [] \<Longrightarrow> list_all (\<lambda>we. Code we = 11000) errs \<Longrightarrow>
   mongo_IsDuplicateKeyError (BulkWriteException errs None)"
  by (cases errs) (simp_all add: mongo_IsDuplicateKeyError_def duplicate_code_def)

lemma InsertTransfers_absorbs_duplicates:
  "\<exists>new. InsertTransfers (mongo_BulkWrite key (\<lambda>d. None) True) mongo_IsDuplicateKeyError
            r docs = (None, r\<lparr>transfersColl := transfersColl r @ new\<rparr>) \<and>
          set new \<subseteq> set docs \<and> key ` set docs \<subseteq> key ` set (transfersColl r @ new)"
proof (cases "docs = []")
  case True
  then show ?thesis
    by (auto simp: InsertTransfers_def intro: exI [of _ "[]"])
next
  case False
  obtain coll' errs where
    ins: "insert_unordered key (\<lambda>d. None) 0 (transfersColl r) docs = (coll', errs)"
    by (cases "insert_unordered key (\<lambda>d. None) 0 (transfersColl r) docs") auto
  from insert_unordered_keeps [OF ins] obtain new where
    new: "coll' = transfersColl r @ new" "set new \<subseteq> set docs"
    by blast
  have keys: "key ` set docs \<subseteq> key ` set coll'"
    using insert_unordered_inserts [OF ins] by auto
  have "errs \<noteq> [] \<Longrightarrow> mongo_IsDuplicateKeyError (BulkWriteException errs None)"
    using insert_unordered_codes [OF ins] by (simp add: all_duplicates_is_duplicate)
  then have "InsertTransfers (mongo_BulkWrite key (\<lambda>d. None) True) mongo_IsDuplicateKeyError
      r docs = (None, r\<lparr>transfersColl := coll'\<rparr>)"
    using False by (auto simp: InsertTransfers_def mongo_BulkWrite_def ins)
  then show ?thesis
    using new keys by auto
qed

lemma InsertTransfers_again:
  assumes "key ` set docs \<subseteq> key ` set (transfersColl r)"
  shows "InsertTransfers (mongo_BulkWrite key (\<lambda>d. None) True) mongo_IsDuplicateKeyError
           r docs = (None, r)"
proof (cases "docs = []")
  case True
  then show ?thesis by (simp add: InsertTransfers_def)
next
  case False
  have "\<forall>d \<in> set docs. (\<lambda>d. None) d = None \<and> key d \<in> key ` set (transfersColl r)"
    using assms by auto
  from insert_unordered_all_present [OF this, of 0] obtain errs where
    ins: "insert_unordered key (\<lambda>d. None) 0 (transfersColl r) docs = (transfersColl r, errs)"
    and errs: "length errs = length docs" "list_all (\<lambda>we. Code we = 11000) errs"
    by blast
  from errs False have "errs \<noteq> []" by auto
  then have "mongo_IsDuplicateKeyError (BulkWriteException errs None)"
    using errs(2) by (rule all_duplicates_is_duplicate)
  then show ?thesis
    using False \<open>errs \<noteq> []\<close> by (simp add: InsertTransfers_def mongo_BulkWrite_def ins)
qed

lemma InsertTransfers_idempotent:
  assumes "InsertTransfers (mongo_BulkWrite key (\<lambda>d. None) True) mongo_IsDuplicateKeyError
             r docs = (res, r')"
  shows "res = None \<and>
         InsertTransfers (mongo_BulkWrite key (\<lambda>d. None) True) mongo_IsDuplicateKeyError
           r' docs = (None, r')"
proof -
  from InsertTransfers_absorbs_duplicates [of key r docs] assms obtain new where
    "res = None" "r' = r\<lparr>transfersColl := transfersColl r @ new\<rparr>"
    "key ` set docs \<subseteq> key ` set (transfersColl r @ new)"
    by auto
  then show ?thesis
    using InsertTransfers_again [of key docs r'] by simp
qed

lemma InsertTransfers_propagates:
  "transfers \<noteq> [] \<Longrightarrow> BulkWrite (transfersColl r) transfers = (Some err, coll) \<Longrightarrow>
   \<not> IsDuplicateKeyError err \<Longrightarrow>
   fst (InsertTransfers BulkWrite IsDuplicateKeyError r transfers) = Some err"
  by (simp add: InsertTransfers_def)

text \<open>
  C9, at a collection that holds the transfer \<open>(0xaa, 0)\<close> and a batch of that
  transfer and the transfer \<open>(0xbb, 0)\<close>, which the server rejects with the code 121
  (a document validation failure): the bulk write fails with a duplicate-key error for
  the first and the error 121 for the second, \<open>IsDuplicateKeyError\<close> holds of it, and
  \<open>InsertTransfers\<close> returns no error although the second transfer was not written.
\<close>

theorem bulk_write_other_error_absorbed:
  "InsertTransfers
     (mongo_BulkWrite unique_key (\<lambda>t. if TxHash t = ''0xbb'' then Some 121 else None) True)
     mongo_IsDuplicateKeyError
     \<lparr>transfersColl = [example_transfer ''0xaa'' 0], processedColl = [], cache = None\<rparr>
     [example_transfer ''0xaa'' 0, example_transfer ''0xbb'' 0] =
   (None,
    \<lparr>transfersColl = [example_transfer ''0xaa'' 0], processedColl = [], cache = None\<rparr>) \<and>
   mongo_BulkWrite unique_key (\<lambda>t. if TxHash t = ''0xbb'' then Some 121 else None) True
     [example_transfer ''0xaa'' 0]
     [example_transfer ''0xaa'' 0, example_transfer ''0xbb'' 0] =
   (Some (BulkWriteException [\<lparr>Index = 0, Code = 11000\<rparr>, \<lparr>Index = 1, Code = 121\<rparr>] None),
    [example_transfer ''0xaa'' 0])"
  by (simp add: InsertTransfers_def mongo_BulkWrite_def mongo_IsDuplicateKeyError_def
      duplicate_code_def unique_key_def example_transfer_def)


section \<open>The log parser\<close>

text \<open>
  The two roundings of \<open>parseValueDecimal\<close> keep the result within a relative error
  of \<open>2^-52\<close> of the exact quotient.
\<close>

lemma BitLen_bounds: "0 < n \<Longrightarrow> 2 ^ (BitLen n - 1) \<le> n \<and> n < 2 ^ BitLen n"
proof (induction n rule: BitLen.induct)
  case (1 n)
  show ?case
  proof (cases "n div 2 = 0")
    case True
    with "1.prems" have "n = 1" by linarith
    moreover have "BitLen (Suc 0) = Suc 0"
      by (simp add: BitLen.simps [of "Suc 0"] BitLen.simps [of 0])
    ultimately show ?thesis
      by simp
  next
    case False
    then have pos: "0 < n div 2" by simp
    from "1.prems" have n0: "n \<noteq> 0" by simp
    from "1.IH" [OF n0 pos] have
      lo: "2 ^ (BitLen (n div 2) - 1) \<le> n div 2" and hi: "n div 2 < 2 ^ BitLen (n div 2)"
      by simp_all
    have bl: "BitLen n = Suc (BitLen (n div 2))"
      using n0 by (subst BitLen.simps) simp
    have bpos: "0 < BitLen (n div 2)"
      using pos by (subst BitLen.simps) simp
    then have "(2::nat) ^ BitLen (n div 2) = 2 * 2 ^ (BitLen (n div 2) - 1)"
      by (cases "BitLen (n div 2)") simp_all
    with lo have "2 ^ BitLen (n div 2) \<le> 2 * (n div 2)" by simp
    also have "\<dots> \<le> n" by simp
    finally have 1: "2 ^ (BitLen n - 1) \<le> n" by (simp add: bl)
    from hi have "n div 2 + 1 \<le> 2 ^ BitLen (n div 2)" by simp
    then have "2 * (n div 2) + 2 \<le> 2 * 2 ^ BitLen (n div 2)" by simp
    moreover have "n < 2 * (n div 2) + 2" by linarith
    ultimately have 2: "n < 2 ^ BitLen n" by (simp add: bl)
    from 1 2 show ?thesis by simp
  qed
qed

lemma floor_log2_test:
  "(if k \<ge> 0 then b * 2 ^ nat k \<le> a else b \<le> a * 2 ^ nat (- k)) \<longleftrightarrow>
   (of_nat b :: rat) * 2 powi k \<le> of_nat a"
proof (cases "k \<ge> 0")
  case True
  have "(b * 2 ^ nat k \<le> a) \<longleftrightarrow> ((of_nat (b * 2 ^ nat k) :: rat) \<le> of_nat a)"
    by (simp only: of_nat_le_iff)
  then show ?thesis
    using True by (simp add: power_int_def)
next
  case False
  have "(b \<le> a * 2 ^ nat (- k)) \<longleftrightarrow> ((of_nat b :: rat) \<le> of_nat (a * 2 ^ nat (- k)))"
    by (simp only: of_nat_le_iff)
  then show ?thesis
    using False by (simp add: power_int_def field_simps)
qed

lemma floor_log2_bounds:
  assumes "0 < a" "0 < b"
  shows "(of_nat b :: rat) * 2 powi (floor_log2 a b) \<le> of_nat a"
    and "(of_nat a :: rat) < of_nat b * 2 powi (floor_log2 a b + 1)"
proof -
  have "0 < BitLen a" using assms(1) by (subst BitLen.simps) simp
  then obtain la where la: "BitLen a = Suc la" by (cases "BitLen a") auto
  have "0 < BitLen b" using assms(2) by (subst BitLen.simps) simp
  then obtain lb where lb: "BitLen b = Suc lb" by (cases "BitLen b") auto
  define k where "k = int la - int lb"
  from BitLen_bounds [OF assms(1)] have a: "2 ^ la \<le> a" "a < 2 ^ Suc la"
    by (simp_all add: la)
  from BitLen_bounds [OF assms(2)] have b: "2 ^ lb \<le> b" "b < 2 ^ Suc lb"
    by (simp_all add: lb)
  have ra1: "(2::rat) powi int la \<le> of_nat a"
  proof -
    have "(of_nat (2 ^ la) :: rat) \<le> of_nat a"
      using a(1) by (simp only: of_nat_le_iff)
    then show ?thesis by simp
  qed
  have ra2: "(of_nat a :: rat) < 2 powi (int la + 1)"
  proof -
    have "(of_nat a :: rat) < of_nat (2 ^ Suc la)"
      using a(2) by (simp only: of_nat_less_iff)
    moreover have "(2::rat) powi (int la + 1) = 2 ^ Suc la"
      by (simp add: power_int_add)
    ultimately show ?thesis by simp
  qed
  have rb1: "(2::rat) powi int lb \<le> of_nat b"
  proof -
    have "(of_nat (2 ^ lb) :: rat) \<le> of_nat b"
      using b(1) by (simp only: of_nat_le_iff)
    then show ?thesis by simp
  qed
  have rb2: "(of_nat b :: rat) < 2 powi (int lb + 1)"
  proof -
    have "(of_nat b :: rat) < of_nat (2 ^ Suc lb)"
      using b(2) by (simp only: of_nat_less_iff)
    moreover have "(2::rat) powi (int lb + 1) = 2 ^ Suc lb"
      by (simp add: power_int_add)
    ultimately show ?thesis by simp
  qed
  have pa: "(2::rat) powi (m + n) = 2 powi m * 2 powi n" for m n
    by (simp add: power_int_add)
  have low: "(of_nat b :: rat) * 2 powi (k - 1) \<le> of_nat a"
  proof -
    have "(of_nat b :: rat) * 2 powi (k - 1) \<le> 2 powi (int lb + 1) * 2 powi (k - 1)"
      using rb2 by (intro mult_right_mono) auto
    also have "\<dots> = 2 powi ((int lb + 1) + (k - 1))"
      by (simp only: pa)
    also have "(int lb + 1) + (k - 1) = int la"
      by (simp add: k_def)
    finally show ?thesis using ra1 by linarith
  qed
  have high: "(of_nat a :: rat) < of_nat b * 2 powi (k + 1)"
  proof -
    have "int la + 1 = int lb + (k + 1)"
      by (simp add: k_def)
    then have "(2::rat) powi (int la + 1) = 2 powi int lb * 2 powi (k + 1)"
      by (simp only: pa)
    also have "\<dots> \<le> of_nat b * 2 powi (k + 1)"
      using rb1 by (intro mult_right_mono) auto
    finally show ?thesis using ra2 by linarith
  qed
  have k: "int (BitLen a) - int (BitLen b) = k"
    by (simp add: k_def la lb)
  have fl: "floor_log2 a b = (if (of_nat b :: rat) * 2 powi k \<le> of_nat a then k else k - 1)"
    unfolding floor_log2_def k Let_def floor_log2_test [of k b a] ..
  show "(of_nat b :: rat) * 2 powi (floor_log2 a b) \<le> of_nat a"
    using low by (simp add: fl)
  show "(of_nat a :: rat) < of_nat b * 2 powi (floor_log2 a b + 1)"
    using high by (simp add: fl not_le)
qed

lemma round_half_even_close:
  assumes "0 < d"
  shows "\<bar>(of_nat (round_half_even n d) :: rat) - of_nat n / of_nat d\<bar> \<le> 1 / 2"
proof -
  let ?f = "n div d" and ?r = "n mod d"
  have n: "(of_nat n :: rat) = of_nat d * of_nat ?f + of_nat ?r"
    by (metis mult_div_mod_eq of_nat_add of_nat_mult)
  have d: "(0::rat) < of_nat d" using assms by simp
  have q: "(of_nat n :: rat) / of_nat d = of_nat ?f + of_nat ?r / of_nat d"
    using d by (simp add: n field_simps)
  have r: "(of_nat ?r :: rat) < of_nat d" "(0::rat) \<le> of_nat ?r"
    using assms by simp_all
  consider "2 * ?r < d" | "2 * ?r > d" | "2 * ?r = d" by linarith
  then show ?thesis
  proof cases
    case 1
    then have "(of_nat (2 * ?r) :: rat) < of_nat d" by (simp only: of_nat_less_iff)
    then have "(of_nat ?r :: rat) / of_nat d < 1 / 2" using d by (simp add: field_simps)
    moreover have "(0::rat) \<le> of_nat ?r / of_nat d" using d r by simp
    ultimately show ?thesis
      using 1 by (simp add: round_half_even_def Let_def q)
  next
    case 2
    then have "(of_nat d :: rat) < of_nat (2 * ?r)" by (simp only: of_nat_less_iff)
    then have "(of_nat ?r :: rat) / of_nat d > 1 / 2" using d by (simp add: field_simps)
    moreover have "(of_nat ?r :: rat) / of_nat d < 1" using d r by simp
    ultimately show ?thesis
      using 2 by (simp add: round_half_even_def Let_def q)
  next
    case 3
    then have "(of_nat (2 * ?r) :: rat) = of_nat d" by (simp only:)
    then have "(of_nat ?r :: rat) / of_nat d = 1 / 2" using d by (simp add: field_simps)
    then show ?thesis
      using 3 by (simp add: round_half_even_def Let_def q)
  qed
qed

lemma round_quotient_close:
  assumes "0 < a" "0 < b"
  shows "\<bar>float_value (round_quotient p a b) - of_nat a / of_nat b\<bar>
           \<le> (of_nat a / of_nat b) / 2 ^ p"
proof -
  define k where "k = floor_log2 a b"
  define e where "e = k + 1 - int p"
  define q :: rat where "q = of_nat a / of_nat b"
  define m where "m = (if e \<ge> 0 then round_half_even a (b * 2 ^ nat e)
                       else round_half_even (a * 2 ^ nat (- e)) b)"
  have bpos: "(0::rat) < of_nat b" using assms(2) by simp
  have pe: "(0::rat) < 2 powi e" by simp
  have rq: "round_quotient p a b = \<lparr>mant = m, expo = e\<rparr>"
    using assms(1) by (simp add: round_quotient_def Let_def m_def e_def k_def)
  have fv: "float_value (round_quotient p a b) = of_nat m * 2 powi e"
    by (simp add: rq float_value_def)
  have close: "\<bar>(of_nat m :: rat) - q / 2 powi e\<bar> \<le> 1 / 2"
  proof (cases "e \<ge> 0")
    case True
    have "\<bar>(of_nat (round_half_even a (b * 2 ^ nat e)) :: rat)
            - of_nat a / of_nat (b * 2 ^ nat e)\<bar> \<le> 1 / 2"
      using assms(2) by (intro round_half_even_close) simp
    moreover have "(of_nat a :: rat) / of_nat (b * 2 ^ nat e) = q / 2 powi e"
      using True by (simp add: q_def power_int_def)
    ultimately show ?thesis
      using True by (simp add: m_def)
  next
    case False
    have "\<bar>(of_nat (round_half_even (a * 2 ^ nat (- e)) b) :: rat)
            - of_nat (a * 2 ^ nat (- e)) / of_nat b\<bar> \<le> 1 / 2"
      using assms(2) by (intro round_half_even_close)
    moreover have "(of_nat (a * 2 ^ nat (- e)) :: rat) / of_nat b = q / 2 powi e"
      using False by (simp add: q_def power_int_def field_simps)
    ultimately show ?thesis
      using False by (simp add: m_def)
  qed
  have "(of_nat m :: rat) * 2 powi e - q = (of_nat m - q / 2 powi e) * 2 powi e"
    using pe by (simp add: left_diff_distrib)
  then have "\<bar>(of_nat m :: rat) * 2 powi e - q\<bar> = \<bar>(of_nat m - q / 2 powi e) * 2 powi e\<bar>"
    by (simp only:)
  also have "\<dots> = \<bar>(of_nat m :: rat) - q / 2 powi e\<bar> * 2 powi e"
    using pe by (simp add: abs_mult)
  also have "\<dots> \<le> (1 / 2) * 2 powi e"
    using close pe by (intro mult_right_mono) auto
  finally have err: "\<bar>(of_nat m :: rat) * 2 powi e - q\<bar> \<le> (1 / 2) * 2 powi e" .
  have "(2::rat) powi e = 2 powi k * 2 powi (1 - int p)"
    by (simp add: e_def power_int_add [symmetric] algebra_simps)
  also have "(2::rat) powi (1 - int p) = 2 / 2 ^ p"
    by (simp add: power_int_diff)
  finally have e2: "(1 / 2) * (2::rat) powi e = 2 powi k / 2 ^ p"
    by simp
  have "(of_nat b :: rat) * 2 powi k \<le> of_nat a"
    unfolding k_def using assms by (rule floor_log2_bounds(1))
  then have "(2::rat) powi k \<le> q"
    using bpos by (simp add: q_def field_simps)
  then have kq: "(2::rat) powi k / 2 ^ p \<le> q / 2 ^ p"
    by (simp add: divide_right_mono)
  from err have "\<bar>(of_nat m :: rat) * 2 powi e - q\<bar> \<le> 2 powi k / 2 ^ p"
    by (simp only: e2)
  also note kq
  finally show ?thesis
    unfolding fv q_def .
qed

lemma round_quotient_zero: "float_value (round_quotient p 0 b) = 0"
  by (simp add: round_quotient_def float_value_def)

lemma Float64_close:
  "\<bar>Float64 x - float_value x\<bar> \<le> float_value x / 2 ^ 53"
proof (cases "mant x = 0")
  case True
  then show ?thesis
    by (simp add: Float64_def float_value_def round_quotient_def)
next
  case False
  show ?thesis
  proof (cases "expo x \<ge> 0")
    case True
    have "\<bar>float_value (round_quotient 53 (mant x * 2 ^ nat (expo x)) 1)
            - of_nat (mant x * 2 ^ nat (expo x)) / of_nat 1\<bar>
          \<le> (of_nat (mant x * 2 ^ nat (expo x)) / of_nat 1) / 2 ^ 53"
      using False by (intro round_quotient_close) auto
    moreover have "(of_nat (mant x * 2 ^ nat (expo x)) :: rat) / of_nat 1 = float_value x"
      using True by (simp add: float_value_def power_int_def)
    ultimately show ?thesis
      using True by (simp add: Float64_def)
  next
    case neg: False
    have "\<bar>float_value (round_quotient 53 (mant x) (2 ^ nat (- expo x)))
            - of_nat (mant x) / of_nat (2 ^ nat (- expo x))\<bar>
          \<le> (of_nat (mant x) / of_nat (2 ^ nat (- expo x))) / 2 ^ 53"
      using False by (intro round_quotient_close) auto
    moreover have "(of_nat (mant x) :: rat) / of_nat (2 ^ nat (- expo x)) = float_value x"
      using neg by (simp add: float_value_def power_int_def field_simps)
    ultimately show ?thesis
      using neg by (simp add: Float64_def)
  qed
qed

lemma Quo_close:
  assumes "0 < y"
  shows "\<bar>float_value (Quo x y) - of_nat x / of_nat y\<bar> \<le> (of_nat x / of_nat y) / 2 ^ 64"
proof (cases "x = 0")
  case True
  then show ?thesis
    by (simp add: Quo_def round_quotient_zero)
next
  case False
  define p where "p = max (max (BitLen x) 64) (max (BitLen y) 64)"
  have p: "64 \<le> p" by (simp add: p_def)
  have q: "(0::rat) \<le> of_nat x / of_nat y" by simp
  have "\<bar>float_value (round_quotient p x y) - of_nat x / of_nat y\<bar>
          \<le> (of_nat x / of_nat y) / 2 ^ p"
    using False assms by (intro round_quotient_close) auto
  also have "\<dots> \<le> (of_nat x / of_nat y) / 2 ^ 64"
    using p q by (intro divide_left_mono power_increasing mult_pos_pos) auto
  finally show ?thesis
    by (simp add: Quo_def p_def)
qed

lemma parseValueDecimal_close:
  "\<bar>parseValueDecimal v - of_nat v / 10 ^ 18\<bar> \<le> (of_nat v / 10 ^ 18) / 2 ^ 52"
proof -
  define q :: rat where "q = of_nat v / 10 ^ 18"
  define X where "X = float_value (Quo v (10 ^ 18))"
  have q0: "0 \<le> q" by (simp add: q_def)
  have "\<bar>X - of_nat v / of_nat (10 ^ 18)\<bar> \<le> (of_nat v / of_nat (10 ^ 18)) / 2 ^ 64"
    unfolding X_def by (rule Quo_close) simp
  then have xq: "\<bar>X - q\<bar> \<le> q / 2 ^ 64"
    by (simp add: q_def)
  have fx: "\<bar>parseValueDecimal v - X\<bar> \<le> X / 2 ^ 53"
    unfolding parseValueDecimal_def X_def by (rule Float64_close)
  from xq have xle: "X \<le> q + q / 2 ^ 64" by linarith
  have "\<bar>parseValueDecimal v - q\<bar> \<le> \<bar>parseValueDecimal v - X\<bar> + \<bar>X - q\<bar>"
    by linarith
  also have "\<dots> \<le> X / 2 ^ 53 + q / 2 ^ 64"
    using fx xq by linarith
  also have "\<dots> \<le> (q + q / 2 ^ 64) / 2 ^ 53 + q / 2 ^ 64"
    using xle by (simp add: divide_right_mono)
  also have "\<dots> \<le> q / 2 ^ 52"
    using q0 by (simp add: field_simps)
  finally show ?thesis
    by (simp add: q_def)
qed

lemma parseValueDecimal_one_token: "parseValueDecimal (10 ^ 18) = 1"
  by (simp add: parseValueDecimal_def Quo_def Float64_def round_quotient_def floor_log2_def
      round_half_even_def float_value_def BitLen.simps power_int_def power_one_over Let_def)

lemma unat_BytesToAddress: "unat (BytesToAddress h) = unat h mod 2 ^ 160"
  by (simp add: BytesToAddress_def unsigned_ucast_eq take_bit_eq_mod)

lemma SetBytes_bound_aux:
  "foldl (\<lambda>acc b. acc * 256 + unat (b :: 8 word)) a buf < (a + 1) * 256 ^ length buf"
proof (induction buf arbitrary: a)
  case Nil
  then show ?case by simp
next
  case (Cons b buf)
  have "unat b < 256"
    using unsigned_less [of b] by simp
  then have "a * 256 + unat b + 1 \<le> (a + 1) * 256"
    by simp
  then have le: "(a * 256 + unat b + 1) * 256 ^ length buf \<le> ((a + 1) * 256) * 256 ^ length buf"
    by (rule mult_right_mono) simp
  have "foldl (\<lambda>acc b. acc * 256 + unat b) a (b # buf) =
      foldl (\<lambda>acc b. acc * 256 + unat b) (a * 256 + unat b) buf"
    by simp
  also have "\<dots> < (a * 256 + unat b + 1) * 256 ^ length buf"
    by (rule Cons.IH)
  also note le
  also have "((a + 1) * 256) * 256 ^ length buf = (a + 1) * 256 ^ length (b # buf)"
    by (simp add: algebra_simps)
  finally show ?case .
qed

lemma SetBytes_bound: "length buf = 32 \<Longrightarrow> SetBytes buf < 2 ^ 256"
  using SetBytes_bound_aux [of 0 buf] by (simp add: SetBytes_def)

text \<open>
  What \<open>ParseTransferLog\<close> returns, whatever the driver's functions are. It returns
  an error exactly when the log has not three topics, or its first topic is not the
  Transfer signature, or its data is not 32 bytes long. Otherwise the record's \<open>From\<close>
  and \<open>To\<close> are \<open>0x\<close> and the 40 lower-case hexadecimal digits of the low 20 bytes of
  topics 1 and 2; the amount, below \<open>2^256\<close>, is the big-endian number of the data,
  written in decimal in \<open>ValueString\<close>; \<open>Value\<close> is what \<open>ParseDecimal128\<close> makes
  of that string, and \<open>NewDecimal128(0, 0)\<close> when it fails; \<open>ValueDecimal\<close> is the
  quotient of the amount by \<open>10^18\<close> rounded to a \<open>big.Float\<close> and then to a double,
  within \<open>2^-52\<close> of the quotient, relatively; and the timestamp is the block time.
  For the amount \<open>1000000000000000000\<close> the double is 1.
\<close>

lemma ParseTransferLog_contract:
  "((\<exists>e. ParseTransferLog ParseDecimal128 zero now lg t = Inl e) \<longleftrightarrow>
      (length (Topics lg) \<noteq> 3 \<or> Topics lg ! 0 \<noteq> ERC20TransferEventSignature \<or>
       length (Data lg) \<noteq> 32)) \<and>
   (\<forall>r. ParseTransferLog ParseDecimal128 zero now lg t = Inr r \<longrightarrow>
      From r = ''0x'' @ hex_digits 40 (unat (Topics lg ! 1) mod 2 ^ 160) \<and>
      To r = ''0x'' @ hex_digits 40 (unat (Topics lg ! 2) mod 2 ^ 160) \<and>
      SetBytes (Data lg) < 2 ^ 256 \<and>
      ValueString r = decimal (SetBytes (Data lg)) \<and>
      Value r = (case ParseDecimal128 (decimal (SetBytes (Data lg))) of
                   Some d \<Rightarrow> d | None \<Rightarrow> zero) \<and>
      ValueDecimal r = parseValueDecimal (SetBytes (Data lg)) \<and>
      \<bar>ValueDecimal r - of_nat (SetBytes (Data lg)) / 10 ^ 18\<bar>
        \<le> (of_nat (SetBytes (Data lg)) / 10 ^ 18) / 2 ^ 52 \<and>
      Timestamp r = t) \<and>
   parseValueDecimal 1000000000000000000 = 1"
proof (intro conjI allI impI)
  show "(\<exists>e. ParseTransferLog ParseDecimal128 zero now lg t = Inl e) \<longleftrightarrow>
      (length (Topics lg) \<noteq> 3 \<or> Topics lg ! 0 \<noteq> ERC20TransferEventSignature \<or>
       length (Data lg) \<noteq> 32)"
    by (simp add: ParseTransferLog_def Let_def)
next
  fix r
  assume eq: "ParseTransferLog ParseDecimal128 zero now lg t = Inr r"
  have c1: "length (Topics lg) = 3"
    using eq by (cases "length (Topics lg) = 3") (simp_all add: ParseTransferLog_def)
  have c2: "Topics lg ! 0 = ERC20TransferEventSignature"
    using eq c1 by (cases "Topics lg ! 0 = ERC20TransferEventSignature")
      (simp_all add: ParseTransferLog_def)
  have len: "length (Data lg) = 32"
    using eq c1 c2 by (cases "length (Data lg) = 32") (simp_all add: ParseTransferLog_def Let_def)
  have r: "r = \<lparr>EventSignature = EventSignatureTransfer,
                 Token = Address_Hex_lower (Address lg),
                 From = Address_Hex_lower (BytesToAddress (Topics lg ! 1)),
                 To = Address_Hex_lower (BytesToAddress (Topics lg ! 2)),
                 Value = (case ParseDecimal128 (decimal (SetBytes (Data lg))) of
                            Some d \<Rightarrow> d | None \<Rightarrow> zero),
                 ValueString = decimal (SetBytes (Data lg)),
                 ValueDecimal = parseValueDecimal (SetBytes (Data lg)),
                 BlockNumber = BlockNumber_log lg,
                 TxHash = Hash_Hex (TxHash_log lg),
                 TxIndex = TxIndex_log lg,
                 LogIndex = Index_log lg,
                 Timestamp = t,
                 CreatedAt = now\<rparr>"
    using eq by (simp add: ParseTransferLog_def Let_def c1 c2 len)
  show "From r = ''0x'' @ hex_digits 40 (unat (Topics lg ! 1) mod 2 ^ 160)"
    by (simp add: r Address_Hex_lower_def unat_BytesToAddress)
  show "To r = ''0x'' @ hex_digits 40 (unat (Topics lg ! 2) mod 2 ^ 160)"
    by (simp add: r Address_Hex_lower_def unat_BytesToAddress)
  show "SetBytes (Data lg) < 2 ^ 256"
    using len by (rule SetBytes_bound)
  show "ValueString r = decimal (SetBytes (Data lg))"
    by (simp add: r)
  show "Value r = (case ParseDecimal128 (decimal (SetBytes (Data lg))) of
                   Some d \<Rightarrow> d | None \<Rightarrow> zero)"
    by (simp add: r)
  show vd: "ValueDecimal r = parseValueDecimal (SetBytes (Data lg))"
    by (simp add: r)
  show "\<bar>ValueDecimal r - of_nat (SetBytes (Data lg)) / 10 ^ 18\<bar>
        \<le> (of_nat (SetBytes (Data lg)) / 10 ^ 18) / 2 ^ 52"
    unfolding vd by (rule parseValueDecimal_close)
  show "Timestamp r = t"
    by (simp add: r)
next
  show "parseValueDecimal 1000000000000000000 = 1"
    using parseValueDecimal_one_token by simp
qed

text \<open>
  The driver's \<open>ParseDecimal128\<close> on the decimal string of an amount. Below \<open>10^34\<close>
  the amount is the significand of the result, with the exponent 0 (biased: 6176, which
  shows as \<open>0x3040\<close> at the head of \<open>h\<close>). From \<open>10^34\<close> on, an amount whose last
  digit is not 0 is refused: it has more than 34 significant digits.
\<close>

lemma decimal_length: "n < 10 ^ k \<Longrightarrow> 0 < k \<Longrightarrow> length (decimal n) \<le> k"
proof (induction n arbitrary: k rule: decimal.induct)
  case (1 n)
  show ?case
  proof (cases "n < 10")
    case True
    then show ?thesis
      using "1.prems" by (subst decimal.simps) simp
  next
    case False
    from "1.prems" obtain j where k: "k = Suc j"
      by (cases k) auto
    have j: "0 < j"
      using False "1.prems" k by (cases j) auto
    have "n div 10 < 10 ^ j"
      using "1.prems"(1) k by (simp add: less_mult_imp_div_less mult.commute)
    from "1.IH" [OF False this j] show ?thesis
      using False k by (subst decimal.simps) simp
  qed
qed

lemma Trim_length: "length (Trim s cutset) \<le> length s"
proof -
  have "length (dropWhile (\<lambda>c. c \<in> set cutset) (rev (dropWhile (\<lambda>c. c \<in> set cutset) s)))
      \<le> length (rev (dropWhile (\<lambda>c. c \<in> set cutset) s))"
    by (rule length_dropWhile_le)
  also have "\<dots> \<le> length s"
    by (simp add: length_dropWhile_le)
  finally show ?thesis
    by (simp add: Trim_def)
qed

lemma ParseDecimal128FromBigInt_small:
  assumes "0 \<le> bi" "bi \<le> maxS"
  shows "ParseDecimal128FromBigInt bi 0 =
     Some \<lparr>h_dec = word_of_nat (nat bi div 2 ^ 64) OR 0x3040000000000000,
           l_dec = word_of_nat (nat bi)\<rparr>"
proof -
  have r: "reduce_loop bi 0 = Some (bi, 0)"
    using assms by (subst reduce_loop.simps) simp
  have s: "subnormal_loop bi 0 = Some (bi, 0)"
    by (subst subnormal_loop.simps) (simp add: MinDecimal128Exp_def)
  have c: "clamped_loop bi 0 = Some (bi, 0)"
    by (subst clamped_loop.simps) (simp add: MaxDecimal128Exp_def)
  have e: "(if bi = 0 then
              (let e = (if 0 > MaxDecimal128Exp then MaxDecimal128Exp else 0)
               in if e < MinDecimal128Exp then MinDecimal128Exp else e)
            else 0) = 0"
    by (simp add: MinDecimal128Exp_def MaxDecimal128Exp_def)
  have n: "\<not> bi < 0" "\<bar>bi\<bar> = bi"
    using assms(1) by simp_all
  show ?thesis
    unfolding ParseDecimal128FromBigInt_def e
    using assms(1) by (simp add: r s c n MinDecimal128Exp_def)
qed

lemma ParseDecimal128_small:
  assumes "v < 10 ^ 34"
  shows "primitive_ParseDecimal128 (decimal v) =
     Some \<lparr>h_dec = word_of_nat (v div 2 ^ 64) OR 0x3040000000000000, l_dec = word_of_nat v\<rparr>"
proof -
  have d: "digits_val 0 (decimal v) = Some v"
    using digits_val_decimal [of 0 v] by simp
  have "length (decimal v) \<le> 34"
    using assms by (intro decimal_length) simp_all
  then have t: "\<not> length (Trim (decimal v) ''-0'') > 35"
    using Trim_length [of "decimal v" "''-0''"] by linarith
  have m: "int v \<le> maxS"
    using assms by (simp add: maxS_def)
  show ?thesis
    unfolding primitive_ParseDecimal128_def
    using ParseDecimal128FromBigInt_small [of "int v", OF _ m] t
    by (simp add: decimal_nonempty d)
qed

lemma ParseDecimal128_large:
  assumes "10 ^ 34 \<le> v" "v mod 10 \<noteq> 0"
  shows "primitive_ParseDecimal128 (decimal v) = None"
proof -
  have d: "digits_val 0 (decimal v) = Some v"
    using digits_val_decimal [of 0 v] by simp
  have big: "\<bar>int v\<bar> > maxS"
    using assms(1) by (simp add: maxS_def)
  have pos: "0 < int v"
    using assms(1) by simp
  have "int v mod 10 = int (v mod 10)"
    by (simp add: zmod_int)
  then have "int v mod 10 \<noteq> 0"
    using assms(2) by simp
  then have rem: "snd (QuoRem (int v) 10) \<noteq> 0"
    using pos by (simp add: QuoRem_def)
  have r: "reduce_loop (int v) 0 = None"
    using big rem by (subst reduce_loop.simps) simp
  have v0: "int v \<noteq> 0"
    using assms(1) by auto
  have "ParseDecimal128FromBigInt (int v) 0 = None"
    unfolding ParseDecimal128FromBigInt_def using v0 by (simp add: r)
  then show ?thesis
    unfolding primitive_ParseDecimal128_def by (simp add: decimal_nonempty d)
qed

text \<open>
  So the \<open>Value\<close> of the record is the amount when the amount is below \<open>10^34\<close>, and
  zero when the amount is at least \<open>10^34\<close> and does not end in 0.
\<close>

lemma ParseTransferLog_Value:
  assumes "ParseTransferLog primitive_ParseDecimal128 (primitive_NewDecimal128 0 0) now lg t = Inr r"
  shows "SetBytes (Data lg) < 10 ^ 34 \<Longrightarrow>
           Value r = \<lparr>h_dec = word_of_nat (SetBytes (Data lg) div 2 ^ 64) OR 0x3040000000000000,
                      l_dec = word_of_nat (SetBytes (Data lg))\<rparr>"
    and "10 ^ 34 \<le> SetBytes (Data lg) \<Longrightarrow> SetBytes (Data lg) mod 10 \<noteq> 0 \<Longrightarrow>
           Value r = \<lparr>h_dec = 0, l_dec = 0\<rparr>"
proof -
  from ParseTransferLog_contract [of primitive_ParseDecimal128 "primitive_NewDecimal128 0 0" now lg t]
    assms
  have v: "Value r = (case primitive_ParseDecimal128 (decimal (SetBytes (Data lg))) of
                       Some d \<Rightarrow> d | None \<Rightarrow> primitive_NewDecimal128 0 0)"
    by blast
  show "Value r = \<lparr>h_dec = word_of_nat (SetBytes (Data lg) div 2 ^ 64) OR 0x3040000000000000,
                   l_dec = word_of_nat (SetBytes (Data lg))\<rparr>"
    if "SetBytes (Data lg) < 10 ^ 34"
    using that by (simp add: v ParseDecimal128_small)
  show "Value r = \<lparr>h_dec = 0, l_dec = 0\<rparr>"
    if "10 ^ 34 \<le> SetBytes (Data lg)" "SetBytes (Data lg) mod 10 \<noteq> 0"
    using that by (simp add: v ParseDecimal128_large primitive_NewDecimal128_def)
qed

text \<open>The transfer of \<open>10^18\<close> units is parsed as the specification's example has it.\<close>

lemma example_log_from:
  "''0x'' @ hex_digits 40 (unat (Topics example_log ! 1) mod 2 ^ 160) =
     ''0xa9d1e08c7793af67e9d92fe308d5697fb81d3e43''"
  by (simp add: example_log_def hex_digits.simps hex_char_def)

lemma example_log_to:
  "''0x'' @ hex_digits 40 (unat (Topics example_log ! 2) mod 2 ^ 160) =
     ''0x28c6c06298d514db089934071355e5743bf21d60''"
  by (simp add: example_log_def hex_digits.simps hex_char_def)

lemma example_log_value:
  "SetBytes (Data example_log) = 1000000000000000000"
  by (simp add: example_log_def SetBytes_def)

lemma example_log_decimal:
  "decimal 1000000000000000000 = ''1000000000000000000''"
  by (simp add: decimal.simps digit_char_def)

lemma example_log_parses:
  "\<exists>r. ParseTransferLog ParseDecimal128 zero now example_log t = Inr r"
  by (simp add: ParseTransferLog_def example_log_def ERC20TransferEventSignature_def Let_def)

lemma ParseTransferLog_example:
  "\<exists>r. ParseTransferLog primitive_ParseDecimal128 (primitive_NewDecimal128 0 0) 99
         example_log 1700000000 = Inr r \<and>
       From r = ''0xa9d1e08c7793af67e9d92fe308d5697fb81d3e43'' \<and>
       To r = ''0x28c6c06298d514db089934071355e5743bf21d60'' \<and>
       ValueString r = ''1000000000000000000'' \<and>
       Value r = \<lparr>h_dec = 0x3040000000000000, l_dec = 1000000000000000000\<rparr> \<and>
       ValueDecimal r = 1 \<and>
       Timestamp r = 1700000000"
proof -
  from example_log_parses
    [of primitive_ParseDecimal128 "primitive_NewDecimal128 0 0" 99 1700000000]
  obtain r where
    r: "ParseTransferLog primitive_ParseDecimal128 (primitive_NewDecimal128 0 0) 99
          example_log 1700000000 = Inr r"
    by blast
  from ParseTransferLog_contract
    [of primitive_ParseDecimal128 "primitive_NewDecimal128 0 0" 99 example_log 1700000000] r
  have f: "From r = ''0x'' @ hex_digits 40 (unat (Topics example_log ! 1) mod 2 ^ 160)"
    and t: "To r = ''0x'' @ hex_digits 40 (unat (Topics example_log ! 2) mod 2 ^ 160)"
    and s: "ValueString r = decimal (SetBytes (Data example_log))"
    and d: "ValueDecimal r = parseValueDecimal (SetBytes (Data example_log))"
    and ts: "Timestamp r = 1700000000"
    and one: "parseValueDecimal 1000000000000000000 = 1"
    by blast+
  have "From r = ''0xa9d1e08c7793af67e9d92fe308d5697fb81d3e43''"
    using f by (simp only: example_log_from)
  moreover have "To r = ''0x28c6c06298d514db089934071355e5743bf21d60''"
    using t by (simp only: example_log_to)
  moreover have "ValueString r = ''1000000000000000000''"
    using s by (simp only: example_log_value example_log_decimal)
  moreover have "Value r = \<lparr>h_dec = 0x3040000000000000, l_dec = 1000000000000000000\<rparr>"
    using ParseTransferLog_Value(1) [OF r] by (simp add: example_log_value)
  moreover have "ValueDecimal r = 1"
    using d by (simp only: example_log_value one)
  ultimately show ?thesis
    using r ts by blast
qed

lemma max_value_log_value:
  "SetBytes (Data max_value_log) =
     115792089237316195423570985008687907853269984665640564039457584007913129639935"
  by (simp add: max_value_log_def SetBytes_def)

lemma max_value_decimal:
  "decimal 115792089237316195423570985008687907853269984665640564039457584007913129639935 =
     ''115792089237316195423570985008687907853269984665640564039457584007913129639935''"
  by (simp add: decimal.simps digit_char_def)

lemma max_value_refused:
  "primitive_ParseDecimal128
     ''115792089237316195423570985008687907853269984665640564039457584007913129639935'' = None"
  by (simp add: primitive_ParseDecimal128_def digit_val_def Trim_def)

lemma max_value_log_shape:
  "length (Topics max_value_log) = 3 \<and>
   Topics max_value_log ! 0 = ERC20TransferEventSignature \<and>
   length (Data max_value_log) = 32"
  by (simp add: max_value_log_def example_log_def ERC20TransferEventSignature_def)

text \<open>
  C8, at a well-formed Transfer log whose 32 bytes of data are all \<open>0xff\<close>, the amount
  \<open>2^256 - 1\<close> of 78 digits: the driver's \<open>ParseDecimal128\<close> refuses the decimal
  string, which has more than 34 significant digits, the parser drops the error, and the
  record it returns has the amount in \<open>ValueString\<close> and zero, \<open>NewDecimal128(0, 0)\<close>,
  in \<open>Value\<close>, the field stored and served under the name \<open>value\<close>.
\<close>

theorem amount_beyond_34_digits_stored_as_zero:
  "SetBytes (Data max_value_log) =
     115792089237316195423570985008687907853269984665640564039457584007913129639935 \<and>
   primitive_ParseDecimal128
     ''115792089237316195423570985008687907853269984665640564039457584007913129639935'' = None \<and>
   (case ParseTransferLog primitive_ParseDecimal128 (primitive_NewDecimal128 0 0) 99
           max_value_log 1700000000 of
      Inl e \<Rightarrow> None
    | Inr r \<Rightarrow> Some (ValueString r, Value r)) =
     Some (''115792089237316195423570985008687907853269984665640564039457584007913129639935'',
           \<lparr>h_dec = 0, l_dec = 0\<rparr>)"
  by (simp add: ParseTransferLog_def Let_def max_value_log_shape max_value_log_value
      max_value_decimal max_value_refused primitive_NewDecimal128_def)


end
